theory Spec2Isabelle
  imports Main "HOL-Library.Multiset"
begin

section \<open>Lookup tables of the poker engine (look\_up\_table.py)\<close>

subsection \<open>Errors, numpy indexing, loops that may raise\<close>

text \<open>The Python exceptions the table code can raise.\<close>

datatype error = IndexError | ValueError | AssertionError | ZeroDivisionError

text \<open>numpy indexing of one axis of length \<open>n\<close>: an index in \<open>[-n, n)\<close> is accepted,
  a negative one counts from the end, anything else raises IndexError.\<close>

definition np_norm :: "nat \<Rightarrow> int \<Rightarrow> error + nat" where
  "np_norm n i =
     (if 0 \<le> i \<and> i < int n then Inr (nat i)
      else if - int n \<le> i \<and> i < 0 then Inr (nat (i + int n))
      else Inl IndexError)"

definition np_index :: "'a list \<Rightarrow> int \<Rightarrow> error + 'a" where
  "np_index xs i = (case np_norm (length xs) i of Inl e \<Rightarrow> Inl e | Inr j \<Rightarrow> Inr (xs ! j))"

text \<open>\<open>a[i, j]\<close> on a two-dimensional array stored as a list of rows.\<close>

definition np_index2 :: "'a list list \<Rightarrow> int \<Rightarrow> int \<Rightarrow> error + 'a" where
  "np_index2 a i j = (case np_index a i of Inl e \<Rightarrow> Inl e | Inr row \<Rightarrow> np_index row j)"

text \<open>A \<open>for\<close> loop that builds one result per element and stops at the first exception.\<close>

fun traverse :: "('a \<Rightarrow> error + 'b) \<Rightarrow> 'a list \<Rightarrow> error + 'b list" where
  "traverse f [] = Inr []"
| "traverse f (x # xs) =
     (case f x of
        Inl e \<Rightarrow> Inl e
      | Inr y \<Rightarrow> (case traverse f xs of Inl e \<Rightarrow> Inl e | Inr ys \<Rightarrow> Inr (y # ys)))"

text \<open>Storing a Python integer into an \<open>np.int8\<close> cell keeps its low eight bits, read as
  a signed number (the numpy the repository was written for wraps silently).\<close>

definition int8 :: "int \<Rightarrow> int" where
  "int8 x = (x + 128) mod 256 - 128"

subsection \<open>Rules: the constants of a game variant\<close>

text \<open>The rounds of \<open>Poker\<close>; the rules object itself is supplied by the game
  and is taken as a parameter.\<close>

datatype round = PREFLOP | FLOP | TURN | RIVER

record rules =
  N_RANKS :: nat
  N_SUITS :: nat
  N_CARDS_IN_DECK :: nat
  N_HOLE_CARDS :: nat
  RANGE_SIZE :: nat
  SUITS_MATTER :: bool
  N_FLOP_CARDS :: nat
  N_TURN_CARDS :: nat
  N_RIVER_CARDS :: nat
  ALL_ROUNDS_LIST :: "round list"
  ROUND_BEFORE :: "round \<Rightarrow> round"

subsection \<open>Card conversions of the single-hole-card getter\<close>

text \<open>\<open>_LutGetterLeduc._get_1d_card\<close>: \<open>card_2d[0] * N_SUITS + card_2d[1]\<close>, an int8.\<close>

definition Leduc_get_1d_card :: "rules \<Rightarrow> int \<times> int \<Rightarrow> int" where
  "Leduc_get_1d_card rules card_2d = int8 (fst card_2d * int (N_SUITS rules) + snd card_2d)"

text \<open>\<open>_LutGetterLeduc._get_2d_card\<close>: floor division and remainder by \<open>N_SUITS\<close>,
  stored into an int8 array of two cells. Python raises on a zero divisor.\<close>

definition Leduc_get_2d_card :: "rules \<Rightarrow> int \<Rightarrow> error + int \<times> int" where
  "Leduc_get_2d_card rules card_1d =
     (if N_SUITS rules = 0 then Inl ZeroDivisionError
      else Inr (int8 (card_1d div int (N_SUITS rules)), int8 (card_1d mod int (N_SUITS rules))))"

text \<open>\<open>_LutGetterLeduc.get_1d_card_2_2d_card_LUT\<close>: row \<open>c\<close> is \<open>_get_2d_card(c)\<close>
  for \<open>c\<close> in \<open>range(N_CARDS_IN_DECK)\<close>.\<close>

definition Leduc_get_1d_card_2_2d_card_LUT :: "rules \<Rightarrow> error + (int \<times> int) list" where
  "Leduc_get_1d_card_2_2d_card_LUT rules =
     traverse (\<lambda>c. Leduc_get_2d_card rules (int c)) [0..<N_CARDS_IN_DECK rules]"

text \<open>\<open>_LutGetterLeduc.get_2d_card_2_1d_card_LUT\<close>: cell \<open>[r, s]\<close> is
  \<open>_get_1d_card(np.array([r, s], dtype=np.int8))\<close>, stored as int8.\<close>

definition Leduc_get_2d_card_2_1d_card_LUT :: "rules \<Rightarrow> int list list" where
  "Leduc_get_2d_card_2_1d_card_LUT rules =
     map (\<lambda>r. map (\<lambda>s. int8 (Leduc_get_1d_card rules (int8 (int r), int8 (int s))))
                [0..<N_SUITS rules])
         [0..<N_RANKS rules]"

text \<open>A six-card deck of three ranks and two suits with one hole card and two rounds.\<close>

definition leduc_rules :: rules where
  "leduc_rules = \<lparr> N_RANKS = 3, N_SUITS = 2, N_CARDS_IN_DECK = 6, N_HOLE_CARDS = 1,
     RANGE_SIZE = 6, SUITS_MATTER = False, N_FLOP_CARDS = 1, N_TURN_CARDS = 0,
     N_RIVER_CARDS = 0, ALL_ROUNDS_LIST = [PREFLOP, FLOP], ROUND_BEFORE = (\<lambda>r. PREFLOP) \<rparr>"

subsection \<open>Hole cards and range indexes\<close>

text \<open>\<open>itertools.combinations(iterable, r)\<close>: the subsequences of length \<open>r\<close> of
  the input, emitted in lexicographic order of the positions they take.\<close>

fun combinations :: "'a list \<Rightarrow> nat \<Rightarrow> 'a list list" where
  "combinations xs 0 = [[]]"
| "combinations [] (Suc r) = []"
| "combinations (x # xs) (Suc r) = map ((#) x) (combinations xs r) @ combinations xs (Suc r)"

definition np_arange :: "nat \<Rightarrow> int list" where
  "np_arange n = map int [0..<n]"

text \<open>Storing into an \<open>np.int32\<close> cell.\<close>

definition int32 :: "int \<Rightarrow> int" where
  "int32 x = (x + 2147483648) mod 4294967296 - 2147483648"

text \<open>The body \<open>lut[key] = n; n += 1\<close> of the enumeration loops; the state is the
  table's cells and the counter, \<open>store\<close> is the conversion to the cell type.\<close>

definition assign ::
  "(int \<Rightarrow> int) \<Rightarrow> 'k \<Rightarrow> ('k \<Rightarrow> int) \<times> int \<Rightarrow> ('k \<Rightarrow> int) \<times> int" where
  "assign store key st = ((fst st)(key := store (snd st)), snd st + 1)"

text \<open>\<open>_LutGetterLeduc.get_idx_2_hole_card_LUT\<close> and \<open>get_hole_card_2_idx_LUT\<close>:
  both are \<open>np.expand_dims(np.arange(N_CARDS_IN_DECK), axis=1)\<close>, one column holding
  the card id.\<close>

definition Leduc_get_idx_2_hole_card_LUT :: "rules \<Rightarrow> int list list" where
  "Leduc_get_idx_2_hole_card_LUT rules = map (\<lambda>c. [c]) (np_arange (N_CARDS_IN_DECK rules))"

definition Leduc_get_hole_card_2_idx_LUT :: "rules \<Rightarrow> int list list" where
  "Leduc_get_hole_card_2_idx_LUT rules = map (\<lambda>c. [c]) (np_arange (N_CARDS_IN_DECK rules))"

text \<open>\<open>_LutGetterPLO.get_idx_2_hole_card_LUT\<close>: the rows of
  \<open>itertools.combinations(np.arange(0, 52), 4)\<close>; the deck size 52 is a literal.\<close>

definition PLO_get_idx_2_hole_card_LUT :: "int list list" where
  "PLO_get_idx_2_hole_card_LUT = combinations (np_arange 52) 4"

text \<open>A four-dimensional int32 array with all four axes of the same length. The dense
  array has \<open>dim4 ^ 4\<close> cells; they are kept as a function of the index tuple.\<close>

record lut4 =
  dim4 :: nat
  cell4 :: "nat \<times> nat \<times> nat \<times> nat \<Rightarrow> int"

text \<open>\<open>lut[i1, i2, i3, i4]\<close> with numpy's index check on every axis.\<close>

definition np_index4 :: "lut4 \<Rightarrow> int \<Rightarrow> int \<Rightarrow> int \<Rightarrow> int \<Rightarrow> error + int" where
  "np_index4 lut i1 i2 i3 i4 =
     (case np_norm (dim4 lut) i1 of Inl e \<Rightarrow> Inl e | Inr j1 \<Rightarrow>
      case np_norm (dim4 lut) i2 of Inl e \<Rightarrow> Inl e | Inr j2 \<Rightarrow>
      case np_norm (dim4 lut) i3 of Inl e \<Rightarrow> Inl e | Inr j3 \<Rightarrow>
      case np_norm (dim4 lut) i4 of Inl e \<Rightarrow> Inl e | Inr j4 \<Rightarrow>
        Inr (cell4 lut (j1, j2, j3, j4)))"

text \<open>\<open>_LutGetterPLO.get_hole_card_2_idx_LUT\<close>: a table filled with \<open>-2\<close>, then four
  nested ascending loops over \<open>range(cmax)\<close> that number the cells
  \<open>i1 < i2 < i3 < i4\<close> in the order they are visited.\<close>

definition PLO_get_hole_card_2_idx_LUT :: "rules \<Rightarrow> lut4" where
  "PLO_get_hole_card_2_idx_LUT rules =
     (let cmax = N_CARDS_IN_DECK rules;
          st = fold (\<lambda>i1. fold (\<lambda>i2. fold (\<lambda>i3. fold (\<lambda>i4. assign int32 (i1, i2, i3, i4))
                       [Suc i3..<cmax]) [Suc i2..<cmax]) [Suc i1..<cmax]) [0..<cmax]
                 (\<lambda>_. - 2, 0)
      in \<lparr> dim4 = cmax, cell4 = fst st \<rparr>)"

text \<open>The index tuples in the order the four loops visit them.\<close>

definition visited4 :: "nat \<Rightarrow> (nat \<times> nat \<times> nat \<times> nat) list" where
  "visited4 cmax =
     concat (map (\<lambda>i1. concat (map (\<lambda>i2. concat (map (\<lambda>i3. map (\<lambda>i4. (i1, i2, i3, i4))
        [Suc i3..<cmax]) [Suc i2..<cmax])) [Suc i1..<cmax])) [0..<cmax])"

text \<open>The compiled backend \<open>CppLibHoldemLuts\<close> that the two- and four-card getters call.
  Its code is not part of the Python source; it is a parameter of the getters.\<close>

record cpp_backend =
  get_2d_card :: "int \<Rightarrow> int \<times> int"
  get_1d_card :: "int \<times> int \<Rightarrow> int"
  get_idx_2_hole_card_lut :: "int list list"
  get_hole_card_2_idx_lut :: "int list list"

text \<open>\<open>_LutGetterHoldem.get_idx_2_hole_card_LUT\<close> and \<open>get_hole_card_2_idx_LUT\<close> return
  the backend's tables.\<close>

definition Holdem_get_idx_2_hole_card_LUT :: "cpp_backend \<Rightarrow> int list list" where
  "Holdem_get_idx_2_hole_card_LUT backend = get_idx_2_hole_card_lut backend"

definition Holdem_get_hole_card_2_idx_LUT :: "cpp_backend \<Rightarrow> int list list" where
  "Holdem_get_hole_card_2_idx_LUT backend = get_hole_card_2_idx_lut backend"

text \<open>Modelled from the spec: the two-card tables of the compiled backend
  \<open>CppLibHoldemLuts\<close>, whose code is missing. The spec (4.2, k = 2) enumerates all pairs
  \<open>c1 < c2\<close> with \<open>c1\<close> ranging over \<open>[0, N)\<close> and \<open>c2\<close> over \<open>(c1, N)\<close> and assigns
  indices in that nested order; the inverse table has one row of two card ids per index.
  The spec does not say what the forward table holds outside \<open>c1 < c2\<close>; those cells
  keep the fill value \<open>-2\<close> of the sibling tables.\<close>

definition spec_idx_2_hole_card_lut :: "nat \<Rightarrow> int list list" where
  "spec_idx_2_hole_card_lut n =
     concat (map (\<lambda>c1. map (\<lambda>c2. [int c1, int c2]) [Suc c1..<n]) [0..<n])"

definition spec_hole_card_2_idx_lut :: "nat \<Rightarrow> int list list" where
  "spec_hole_card_2_idx_lut n =
     (let st = fold (\<lambda>c1. fold (\<lambda>c2. assign (\<lambda>n. n) (c1, c2)) [Suc c1..<n]) [0..<n] (\<lambda>_. - 2, 0)
      in map (\<lambda>c1. map (\<lambda>c2. fst st (c1, c2)) [0..<n]) [0..<n])"

definition visited2 :: "nat \<Rightarrow> (nat \<times> nat) list" where
  "visited2 n = concat (map (\<lambda>c1. map (\<lambda>c2. (c1, c2)) [Suc c1..<n]) [0..<n])"

text \<open>The four-card game on the standard deck, and the two-card game on it.\<close>

definition plo_rules :: rules where
  "plo_rules = \<lparr> N_RANKS = 13, N_SUITS = 4, N_CARDS_IN_DECK = 52, N_HOLE_CARDS = 4,
     RANGE_SIZE = 270725, SUITS_MATTER = True, N_FLOP_CARDS = 3, N_TURN_CARDS = 1,
     N_RIVER_CARDS = 1, ALL_ROUNDS_LIST = [PREFLOP, FLOP, TURN, RIVER],
     ROUND_BEFORE = (\<lambda>r. case r of PREFLOP \<Rightarrow> PREFLOP | FLOP \<Rightarrow> PREFLOP
                               | TURN \<Rightarrow> FLOP | RIVER \<Rightarrow> TURN) \<rparr>"

definition holdem_rules :: rules where
  "holdem_rules = \<lparr> N_RANKS = 13, N_SUITS = 4, N_CARDS_IN_DECK = 52, N_HOLE_CARDS = 2,
     RANGE_SIZE = 1326, SUITS_MATTER = True, N_FLOP_CARDS = 3, N_TURN_CARDS = 1,
     N_RIVER_CARDS = 1, ALL_ROUNDS_LIST = [PREFLOP, FLOP, TURN, RIVER],
     ROUND_BEFORE = (\<lambda>r. case r of PREFLOP \<Rightarrow> PREFLOP | FLOP \<Rightarrow> PREFLOP
                               | TURN \<Rightarrow> FLOP | RIVER \<Rightarrow> TURN) \<rparr>"

text \<open>The three getter classes; a method that the subclasses override is a function of
  the variant.\<close>

datatype variant = Leduc | Holdem | PLO

definition get_idx_2_hole_card_LUT :: "variant \<Rightarrow> rules \<Rightarrow> cpp_backend \<Rightarrow> int list list" where
  "get_idx_2_hole_card_LUT v rules backend =
     (case v of
        Leduc \<Rightarrow> Leduc_get_idx_2_hole_card_LUT rules
      | Holdem \<Rightarrow> Holdem_get_idx_2_hole_card_LUT backend
      | PLO \<Rightarrow> PLO_get_idx_2_hole_card_LUT)"

text \<open>The lookup of an ascending tuple of card ids in \<open>LUT_HOLE_CARDS_2_IDX\<close>, as the
  holders index it: \<open>[c1, 0]\<close>, \<open>[c1, c2]\<close> and \<open>[c1, c2, c3, c4]\<close>.\<close>

definition lookup_hole_cards :: "variant \<Rightarrow> rules \<Rightarrow> cpp_backend \<Rightarrow> int list \<Rightarrow> error + int" where
  "lookup_hole_cards v rules backend h =
     (case v of
        Leduc \<Rightarrow>
          (case h of [c1] \<Rightarrow> np_index2 (Leduc_get_hole_card_2_idx_LUT rules) c1 0
           | _ \<Rightarrow> Inl IndexError)
      | Holdem \<Rightarrow>
          (case h of [c1, c2] \<Rightarrow> np_index2 (Holdem_get_hole_card_2_idx_LUT backend) c1 c2
           | _ \<Rightarrow> Inl IndexError)
      | PLO \<Rightarrow>
          (case h of [c1, c2, c3, c4] \<Rightarrow>
             np_index4 (PLO_get_hole_card_2_idx_LUT rules) c1 c2 c3 c4
           | _ \<Rightarrow> Inl IndexError))"

text \<open>What the rules object and the backend give a variant: the number of hole cards,
  \<open>RANGE_SIZE = C(N_CARDS_IN_DECK, N_HOLE_CARDS)\<close>, the 52-card deck of the four-card
  game, and for the two-card game the backend's tables as the spec describes them.\<close>

definition variant_rules :: "variant \<Rightarrow> rules \<Rightarrow> cpp_backend \<Rightarrow> bool" where
  "variant_rules v rules backend =
     (RANGE_SIZE rules = N_CARDS_IN_DECK rules choose N_HOLE_CARDS rules \<and>
      (case v of
         Leduc \<Rightarrow> N_HOLE_CARDS rules = 1
       | Holdem \<Rightarrow> N_HOLE_CARDS rules = 2
           \<and> get_idx_2_hole_card_lut backend = spec_idx_2_hole_card_lut (N_CARDS_IN_DECK rules)
           \<and> get_hole_card_2_idx_lut backend = spec_hole_card_2_idx_lut (N_CARDS_IN_DECK rules)
       | PLO \<Rightarrow> N_HOLE_CARDS rules = 4 \<and> N_CARDS_IN_DECK rules = 52))"

text \<open>A backend for the standard deck, used where a theorem is applied to a concrete
  game: card ids in rank-major order, as the single-card getter computes them, and the
  two-card tables above.\<close>

definition standard_backend :: cpp_backend where
  "standard_backend = \<lparr> get_2d_card = (\<lambda>c. (c div 4, c mod 4)),
     get_1d_card = (\<lambda>card_2d. fst card_2d * 4 + snd card_2d),
     get_idx_2_hole_card_lut = spec_idx_2_hole_card_lut 52,
     get_hole_card_2_idx_lut = spec_hole_card_2_idx_lut 52 \<rparr>"

subsection \<open>Card membership\<close>

text \<open>\<open>_LutGetterHoldem.get_card_in_what_range_idxs_LUT\<close>, the inner loop for one card
  \<open>c\<close>: scan the range indexes, and where the hole cards contain \<open>c\<close> write the index
  into the next free cell of the card's row. The state is the row and the counter \<open>n\<close>;
  reading a row the table does not have, or writing past the end of the card's row,
  raises IndexError.\<close>

fun Holdem_fill_row ::
  "int list list \<Rightarrow> int \<Rightarrow> nat list \<Rightarrow> int list \<times> nat \<Rightarrow> error + int list \<times> nat" where
  "Holdem_fill_row idx2hc c [] st = Inr st"
| "Holdem_fill_row idx2hc c (range_idx # rest) st =
     (case np_index idx2hc (int range_idx) of
        Inl e \<Rightarrow> Inl e
      | Inr hc \<Rightarrow>
          if c \<in> set hc then
            (if snd st < length (fst st)
             then Holdem_fill_row idx2hc c rest
                    ((fst st)[snd st := int32 (int range_idx)], Suc (snd st))
             else Inl IndexError)
          else Holdem_fill_row idx2hc c rest st)"

text \<open>The whole method: a table of shape \<open>(N_CARDS_IN_DECK, N_CARDS_IN_DECK - 1)\<close> filled
  with \<open>-2\<close> (numpy refuses the negative dimension of an empty deck), one row per card,
  and the final assertion that no \<open>-2\<close> is left.\<close>

definition Holdem_get_card_in_what_range_idxs_LUT ::
  "rules \<Rightarrow> cpp_backend \<Rightarrow> error + int list list" where
  "Holdem_get_card_in_what_range_idxs_LUT rules backend =
     (if N_CARDS_IN_DECK rules = 0 then Inl ValueError
      else
        case traverse
               (\<lambda>c. case Holdem_fill_row (Holdem_get_idx_2_hole_card_LUT backend) (int c)
                              [0..<RANGE_SIZE rules]
                              (replicate (N_CARDS_IN_DECK rules - 1) (- 2), 0) of
                        Inl e \<Rightarrow> Inl e
                      | Inr st \<Rightarrow> Inr (fst st))
               [0..<N_CARDS_IN_DECK rules] of
          Inl e \<Rightarrow> Inl e
        | Inr lut \<Rightarrow> if list_ex (\<lambda>row. - 2 \<in> set row) lut then Inl AssertionError else Inr lut)"

text \<open>\<open>_LutGetterLeduc.get_card_in_what_range_idxs_LUT\<close>:
  \<open>np.arange(RANGE_SIZE).reshape(-1, 1)\<close>.\<close>

definition Leduc_get_card_in_what_range_idxs_LUT :: "rules \<Rightarrow> int list list" where
  "Leduc_get_card_in_what_range_idxs_LUT rules = map (\<lambda>i. [i]) (np_arange (RANGE_SIZE rules))"

text \<open>\<open>np.where(c == a)[0]\<close> for a two-dimensional \<open>a\<close>: the row index of every cell
  equal to \<open>c\<close>, in row-major order.\<close>

definition np_where_rows :: "int \<Rightarrow> int list list \<Rightarrow> int list" where
  "np_where_rows c a =
     concat (map (\<lambda>i. map (\<lambda>x. int i) (filter (\<lambda>x. x = c) (a ! i))) [0..<length a])"

text \<open>\<open>lut[c,] = items\<close> for a row of \<open>width\<close> int32 cells: the values must be as many
  as the cells, or a single value that numpy broadcasts; otherwise ValueError.\<close>

definition np_assign_row :: "nat \<Rightarrow> int list \<Rightarrow> error + int list" where
  "np_assign_row width items =
     (if length items = width then Inr (map int32 items)
      else if length items = 1 then Inr (replicate width (int32 (hd items)))
      else Inl ValueError)"

text \<open>\<open>_LutGetterPLO.get_card_in_what_range_idxs_LUT\<close>: rows of the literal width
  20825, each assigned from \<open>np.where\<close>, then the assertion that no \<open>-2\<close> is left.\<close>

definition PLO_get_card_in_what_range_idxs_LUT :: "rules \<Rightarrow> error + int list list" where
  "PLO_get_card_in_what_range_idxs_LUT rules =
     (case traverse (\<lambda>c. np_assign_row 20825 (np_where_rows (int c) PLO_get_idx_2_hole_card_LUT))
             [0..<N_CARDS_IN_DECK rules] of
        Inl e \<Rightarrow> Inl e
      | Inr lut \<Rightarrow> if list_ex (\<lambda>row. - 2 \<in> set row) lut then Inl AssertionError else Inr lut)"

definition get_card_in_what_range_idxs_LUT ::
  "variant \<Rightarrow> rules \<Rightarrow> cpp_backend \<Rightarrow> error + int list list" where
  "get_card_in_what_range_idxs_LUT v rules backend =
     (case v of
        Leduc \<Rightarrow> Inr (Leduc_get_card_in_what_range_idxs_LUT rules)
      | Holdem \<Rightarrow> Holdem_get_card_in_what_range_idxs_LUT rules backend
      | PLO \<Rightarrow> PLO_get_card_in_what_range_idxs_LUT rules)"

subsection \<open>Rounds and boards\<close>

text \<open>\<open>scipy.special.comb(N, k, exact=True, repetition=False)\<close> on non-negative integers:
  the binomial coefficient, \<open>0\<close> when \<open>k > N\<close>.\<close>

definition comb :: "nat \<Rightarrow> nat \<Rightarrow> nat" where
  "comb N k = N choose k"

text \<open>\<open>get_n_cards_out_at_LUT\<close> and \<open>get_n_cards_dealt_in_transition_to_LUT\<close>: dictionaries
  with an entry for each of the four rounds, so a lookup never fails.\<close>

definition get_n_cards_out_at_LUT :: "rules \<Rightarrow> round \<Rightarrow> nat" where
  "get_n_cards_out_at_LUT rules r =
     (case r of
        PREFLOP \<Rightarrow> 0
      | FLOP \<Rightarrow> N_FLOP_CARDS rules
      | TURN \<Rightarrow> N_FLOP_CARDS rules + N_TURN_CARDS rules
      | RIVER \<Rightarrow> N_FLOP_CARDS rules + N_TURN_CARDS rules + N_RIVER_CARDS rules)"

definition get_n_cards_dealt_in_transition_to_LUT :: "rules \<Rightarrow> round \<Rightarrow> nat" where
  "get_n_cards_dealt_in_transition_to_LUT rules r =
     (case r of
        PREFLOP \<Rightarrow> 0
      | FLOP \<Rightarrow> N_FLOP_CARDS rules
      | TURN \<Rightarrow> N_TURN_CARDS rules
      | RIVER \<Rightarrow> N_RIVER_CARDS rules)"

text \<open>\<open>get_n_boards_LUT\<close>: a dictionary over \<open>ALL_ROUNDS_LIST\<close>; \<open>_c\<close> is the table of
  cards dealt in the transition to the round.\<close>

definition get_n_boards_LUT :: "rules \<Rightarrow> round \<rightharpoonup> nat" where
  "get_n_boards_LUT rules =
     (let c = get_n_cards_dealt_in_transition_to_LUT rules
      in map_of (map (\<lambda>r. (r, comb (N_RANKS rules * N_SUITS rules) (c r)))
                   (ALL_ROUNDS_LIST rules)))"

text \<open>Modelled from the spec: \<open>PokerRange.get_range_size\<close>, which is missing. The spec gives
  the range size as \<open>C(N_CARDS_IN_DECK, N_HOLE_CARDS)\<close>, and the caller uses it as a general
  combination count. The deck size arrives as the result of a Python subtraction.\<close>

definition get_range_size :: "nat \<Rightarrow> int \<Rightarrow> nat" where
  "get_range_size n_hole_cards n_cards_in_deck = nat n_cards_in_deck choose n_hole_cards"

text \<open>\<open>get_n_board_branches_LUT\<close>: the dictionary starts as \<open>{PREFLOP: 0}\<close> and gets an
  entry for every other round of \<open>ALL_ROUNDS_LIST\<close>.\<close>

definition get_n_board_branches_LUT :: "rules \<Rightarrow> round \<rightharpoonup> nat" where
  "get_n_board_branches_LUT rules =
     fold (\<lambda>r lut.
             let nc = int (N_CARDS_IN_DECK rules)
                      - int (get_n_cards_out_at_LUT rules (ROUND_BEFORE rules r))
                      - int (N_HOLE_CARDS rules)
             in lut(r \<mapsto> get_range_size (get_n_cards_dealt_in_transition_to_LUT rules r) nc))
          (filter (\<lambda>r. r \<noteq> PREFLOP) (ALL_ROUNDS_LIST rules))
          [PREFLOP \<mapsto> 0]"

text \<open>The board count in the spec's words: \<open>C(remaining deck after removing hole cards and
  prior board cards, cards revealed so far)\<close>.\<close>

definition spec_n_boards :: "rules \<Rightarrow> round \<Rightarrow> nat" where
  "spec_n_boards rules r =
     (N_CARDS_IN_DECK rules - N_HOLE_CARDS rules
        - get_n_cards_out_at_LUT rules (ROUND_BEFORE rules r))
       choose get_n_cards_out_at_LUT rules r"

subsection \<open>The table holders\<close>

text \<open>The sentinels of the \<open>Poker\<close> class for a card that is not dealt; the class is not
  part of the source and its constants are parameters.\<close>

record poker =
  CARD_NOT_DEALT_TOKEN_1D :: int
  CARD_NOT_DEALT_TOKEN_2D :: "int \<times> int"

text \<open>The tables a holder keeps that its conversion and range-index methods read. The
  constructor builds further tables (private observations, card membership, round counts)
  that these methods never touch. The hole-card table has two axes in the single-card and
  two-card holders and four in the four-card holder.\<close>

record 'h lut_holder =
  LUT_1DCARD_2_2DCARD :: "(int \<times> int) list"
  LUT_2DCARD_2_1DCARD :: "int list list"
  LUT_IDX_2_HOLE_CARDS :: "int list list"
  LUT_HOLE_CARDS_2_IDX :: 'h

text \<open>An array argument: zero-dimensional (a bare number), or with a first axis.\<close>

datatype 'a ndarray = Zero_dim int | Array "'a list"

text \<open>\<open>_LutHolderBase.get_1d_cards\<close>. Empty input returns an empty array at once. Otherwise
  every cell equal to the 1D sentinel is replaced by \<open>0\<close> in a copy, the copy indexes the
  table in one vectorised lookup (which raises if any index is out of range), and
  \<open>np.where\<close> keeps the sentinel for the rows whose rank is the sentinel.\<close>

definition get_1d_cards :: "poker \<Rightarrow> 'h lut_holder \<Rightarrow> (int \<times> int) ndarray \<Rightarrow> error + int list" where
  "get_1d_cards P H cards_2d =
     (case cards_2d of
        Zero_dim x \<Rightarrow> Inr []
      | Array rows \<Rightarrow>
          if rows = [] then Inr []
          else
            let t = CARD_NOT_DEALT_TOKEN_1D P;
                aa = map (\<lambda>row. (if fst row = t then 0 else fst row,
                                  if snd row = t then 0 else snd row)) rows
            in case traverse (\<lambda>row. np_index2 (LUT_2DCARD_2_1DCARD H) (fst row) (snd row)) aa of
                 Inl e \<Rightarrow> Inl e
               | Inr looked \<Rightarrow>
                   Inr (map (\<lambda>(row, v). if fst row = t then t else v) (zip rows looked)))"

text \<open>\<open>_LutHolderBase.get_2d_cards\<close>: the same scheme; the rows at the positions of the
  1D sentinel are overwritten with the 2D sentinel.\<close>

definition get_2d_cards :: "poker \<Rightarrow> 'h lut_holder \<Rightarrow> int ndarray \<Rightarrow> error + (int \<times> int) list" where
  "get_2d_cards P H cards_1d =
     (case cards_1d of
        Zero_dim x \<Rightarrow> Inr []
      | Array cs \<Rightarrow>
          if cs = [] then Inr []
          else
            let t = CARD_NOT_DEALT_TOKEN_1D P;
                aa = map (\<lambda>c. if c = t then 0 else c) cs
            in case traverse (np_index (LUT_1DCARD_2_2DCARD H)) aa of
                 Inl e \<Rightarrow> Inl e
               | Inr cards_2d \<Rightarrow>
                   Inr (map (\<lambda>(c, v). if c = t then CARD_NOT_DEALT_TOKEN_2D P else v)
                          (zip cs cards_2d)))"

text \<open>\<open>LutHolderLeduc\<close>: its tables come from the single-card getter; building the
  1D-to-2D table can raise.\<close>

definition LutHolderLeduc :: "rules \<Rightarrow> error + (int list list) lut_holder" where
  "LutHolderLeduc rules =
     (case Leduc_get_1d_card_2_2d_card_LUT rules of
        Inl e \<Rightarrow> Inl e
      | Inr lut \<Rightarrow>
          Inr \<lparr> LUT_1DCARD_2_2DCARD = lut,
                LUT_2DCARD_2_1DCARD = Leduc_get_2d_card_2_1d_card_LUT rules,
                LUT_IDX_2_HOLE_CARDS = Leduc_get_idx_2_hole_card_LUT rules,
                LUT_HOLE_CARDS_2_IDX = Leduc_get_hole_card_2_idx_LUT rules \<rparr>)"

text \<open>\<open>LutHolderLeduc.get_range_idx_from_hole_cards\<close>: the first of the converted cards
  indexes the table as \<open>[c1, 0]\<close>.\<close>

definition Leduc_get_range_idx_from_hole_cards ::
  "poker \<Rightarrow> (int list list) lut_holder \<Rightarrow> (int \<times> int) ndarray \<Rightarrow> error + int" where
  "Leduc_get_range_idx_from_hole_cards P H hole_cards_2d =
     (case get_1d_cards P H hole_cards_2d of
        Inl e \<Rightarrow> Inl e
      | Inr cs \<Rightarrow>
          (case cs of
             [] \<Rightarrow> Inl IndexError
           | c1 # rest \<Rightarrow> np_index2 (LUT_HOLE_CARDS_2_IDX H) c1 0))"

text \<open>\<open>LutHolderLeduc.get_2d_hole_cards_from_range_idx\<close> and
  \<open>get_1d_hole_cards_from_range_idx\<close>.\<close>

definition Leduc_get_2d_hole_cards_from_range_idx ::
  "(int list list) lut_holder \<Rightarrow> int \<Rightarrow> error + (int \<times> int) list" where
  "Leduc_get_2d_hole_cards_from_range_idx H range_idx =
     (case np_index2 (LUT_IDX_2_HOLE_CARDS H) range_idx 0 of
        Inl e \<Rightarrow> Inl e
      | Inr c1 \<Rightarrow>
          (case np_index (LUT_1DCARD_2_2DCARD H) c1 of
             Inl e \<Rightarrow> Inl e
           | Inr card_2d \<Rightarrow> Inr [card_2d]))"

definition get_1d_hole_cards_from_range_idx :: "'h lut_holder \<Rightarrow> int \<Rightarrow> error + int list" where
  "get_1d_hole_cards_from_range_idx H range_idx = np_index (LUT_IDX_2_HOLE_CARDS H) range_idx"

text \<open>\<open>LutHolderHoldem.get_range_idx_from_hole_cards\<close>: rows 0 and 1 of the argument are
  converted, ordered with \<open>min\<close> and \<open>max\<close>, and looked up.\<close>

definition Holdem_get_range_idx_from_hole_cards ::
  "(int list list) lut_holder \<Rightarrow> (int \<times> int) list \<Rightarrow> error + int" where
  "Holdem_get_range_idx_from_hole_cards H hole_cards_2d =
     (case hole_cards_2d of
        row0 # row1 # rest \<Rightarrow>
          (case np_index2 (LUT_2DCARD_2_1DCARD H) (fst row0) (snd row0) of
             Inl e \<Rightarrow> Inl e
           | Inr c1 \<Rightarrow>
               (case np_index2 (LUT_2DCARD_2_1DCARD H) (fst row1) (snd row1) of
                  Inl e \<Rightarrow> Inl e
                | Inr c2 \<Rightarrow> np_index2 (LUT_HOLE_CARDS_2_IDX H) (min c1 c2) (max c1 c2)))
      | _ \<Rightarrow> Inl IndexError)"

text \<open>\<open>LutHolderPLO.get_range_idx_from_hole_cards\<close>: every row is converted and appended
  to a list, the list is sorted, and its first four elements index the table.\<close>

definition PLO_get_range_idx_from_hole_cards ::
  "lut4 lut_holder \<Rightarrow> (int \<times> int) list \<Rightarrow> error + int" where
  "PLO_get_range_idx_from_hole_cards H hole_cards_2d =
     (case traverse (\<lambda>c. np_index2 (LUT_2DCARD_2_1DCARD H) (fst c) (snd c)) hole_cards_2d of
        Inl e \<Rightarrow> Inl e
      | Inr cs \<Rightarrow>
          (case sort cs of
             l0 # l1 # l2 # l3 # rest \<Rightarrow> np_index4 (LUT_HOLE_CARDS_2_IDX H) l0 l1 l2 l3
           | _ \<Rightarrow> Inl IndexError))"

text \<open>\<open>get_1d_card_2_2d_card_LUT\<close> and \<open>get_2d_card_2_1d_card_LUT\<close> of the two-card and
  the four-card getter (the same code in both): every cell is asked from the backend and
  stored as int8.\<close>

definition cpp_get_1d_card_2_2d_card_LUT :: "rules \<Rightarrow> cpp_backend \<Rightarrow> (int \<times> int) list" where
  "cpp_get_1d_card_2_2d_card_LUT rules backend =
     map (\<lambda>c. (int8 (fst (get_2d_card backend (int c))), int8 (snd (get_2d_card backend (int c)))))
       [0..<N_CARDS_IN_DECK rules]"

definition cpp_get_2d_card_2_1d_card_LUT :: "rules \<Rightarrow> cpp_backend \<Rightarrow> int list list" where
  "cpp_get_2d_card_2_1d_card_LUT rules backend =
     map (\<lambda>r. map (\<lambda>s. int8 (get_1d_card backend (int8 (int r), int8 (int s))))
                [0..<N_SUITS rules])
         [0..<N_RANKS rules]"

text \<open>The tables of \<open>LutHolderPLO\<close> that its range-index method reads.\<close>

definition LutHolderPLO :: "rules \<Rightarrow> cpp_backend \<Rightarrow> lut4 lut_holder" where
  "LutHolderPLO rules backend =
     \<lparr> LUT_1DCARD_2_2DCARD = cpp_get_1d_card_2_2d_card_LUT rules backend,
       LUT_2DCARD_2_1DCARD = cpp_get_2d_card_2_1d_card_LUT rules backend,
       LUT_IDX_2_HOLE_CARDS = PLO_get_idx_2_hole_card_LUT,
       LUT_HOLE_CARDS_2_IDX = PLO_get_hole_card_2_idx_LUT rules \<rparr>"

text \<open>The sentinels as an instance: \<open>-1\<close> and the pair of it.\<close>

definition sample_poker :: poker where
  "sample_poker = \<lparr> CARD_NOT_DEALT_TOKEN_1D = - 1, CARD_NOT_DEALT_TOKEN_2D = (- 1, - 1) \<rparr>"

text \<open>A small holder for a deck of two ranks and two suits.\<close>

definition sample_holder :: "(int list list) lut_holder" where
  "sample_holder = \<lparr> LUT_1DCARD_2_2DCARD = [(0, 0), (0, 1), (1, 0), (1, 1)],
     LUT_2DCARD_2_1DCARD = [[0, 1], [2, 3]],
     LUT_IDX_2_HOLE_CARDS = [[0], [1], [2], [3]],
     LUT_HOLE_CARDS_2_IDX = [[0], [1], [2], [3]] \<rparr>"

subsection \<open>Private observations of the four-card getter\<close>

text \<open>\<open>a[i] = v\<close> on a one-dimensional array, and a run of such writes of one value.\<close>

definition np_set :: "'a list \<Rightarrow> int \<Rightarrow> 'a \<Rightarrow> error + 'a list" where
  "np_set xs i v = (case np_norm (length xs) i of Inl e \<Rightarrow> Inl e | Inr j \<Rightarrow> Inr (xs[j := v]))"

fun np_set_all :: "'a list \<Rightarrow> int list \<Rightarrow> 'a \<Rightarrow> error + 'a list" where
  "np_set_all xs [] v = Inr xs"
| "np_set_all xs (i # rest) v =
     (case np_set xs i v of Inl e \<Rightarrow> Inl e | Inr ys \<Rightarrow> np_set_all ys rest v)"

text \<open>\<open>np.empty(n)\<close> allocates \<open>n\<close> cells and does not initialise them: the array holds
  whatever the memory \<open>mem\<close> held.\<close>

definition np_empty :: "(nat \<Rightarrow> int) \<Rightarrow> nat \<Rightarrow> int list" where
  "np_empty mem n = map mem [0..<n]"

text \<open>The body of the loops of \<open>_LutGetterPLO.get_range_idx_to_private_obs_LUT\<close> for one
  hand of four 2D cards: \<open>priv_o\<close> comes from \<open>np.empty\<close>, then the rank cell of each
  card, and without bucketing also its suit cell, is set to \<open>1\<close>.\<close>

definition PLO_priv_o ::
  "rules \<Rightarrow> bool \<Rightarrow> (nat \<Rightarrow> int) \<Rightarrow> (int \<times> int) list \<Rightarrow> error + int list" where
  "PLO_priv_o rules preflop_suit_bucketing mem element =
     (let D = int (N_SUITS rules) + int (N_RANKS rules);
          priv_o = np_empty mem (N_HOLE_CARDS rules * (N_SUITS rules + N_RANKS rules))
      in case element of
           [e0, e1, e2, e3] \<Rightarrow>
             if \<not> preflop_suit_bucketing then
               np_set_all priv_o
                 [D * 0 + fst e0, D * 0 + int (N_RANKS rules) + snd e0,
                  D * 1 + fst e1, D * 1 + int (N_RANKS rules) + snd e1,
                  D * 2 + fst e2, D * 2 + int (N_RANKS rules) + snd e2,
                  D * 3 + fst e3, D * 3 + int (N_RANKS rules) + snd e3] 1
             else
               np_set_all priv_o [D * 0 + fst e0, D * 1 + fst e1, D * 2 + fst e2, D * 3 + fst e3] 1
         | _ \<Rightarrow> Inl IndexError)"

text \<open>The whole method. \<open>hc_1d_to_2d_lut[range_idx_to_hc_lut]\<close> converts every hand in one
  vectorised lookup; \<open>mem r\<close> is the memory behind the \<open>priv_o\<close> of hand \<open>r\<close> and
  \<open>lut_mem r\<close> the memory behind row \<open>r\<close> of the result, which is from \<open>np.empty\<close> too and
  keeps its rows beyond the hands. Writing a row the result does not have raises.\<close>

definition PLO_get_range_idx_to_private_obs_LUT ::
  "rules \<Rightarrow> cpp_backend \<Rightarrow> (nat \<Rightarrow> nat \<Rightarrow> int) \<Rightarrow> (nat \<Rightarrow> nat \<Rightarrow> int) \<Rightarrow> bool
     \<Rightarrow> error + int list list" where
  "PLO_get_range_idx_to_private_obs_LUT rules backend mem lut_mem preflop_suit_bucketing =
     (let range_idx_to_hc_lut = PLO_get_idx_2_hole_card_LUT;
          hc_1d_to_2d_lut = cpp_get_1d_card_2_2d_card_LUT rules backend;
          width = (N_SUITS rules + N_RANKS rules) * N_HOLE_CARDS rules
      in case traverse (traverse (np_index hc_1d_to_2d_lut)) range_idx_to_hc_lut of
           Inl e \<Rightarrow> Inl e
         | Inr d2_range_lut \<Rightarrow>
             (case traverse (\<lambda>(range_idx, element).
                              if range_idx < RANGE_SIZE rules
                              then PLO_priv_o rules preflop_suit_bucketing (mem range_idx) element
                              else Inl IndexError)
                     (enumerate 0 d2_range_lut) of
                Inl e \<Rightarrow> Inl e
              | Inr rows \<Rightarrow>
                  Inr (rows @ map (\<lambda>r. np_empty (lut_mem r) width)
                                [length rows..<RANGE_SIZE rules])))"

section \<open>Properties\<close>

subsection \<open>Helper facts\<close>

lemma int8_id: "- 128 \<le> x \<Longrightarrow> x < 128 \<Longrightarrow> int8 x = x"
  by (simp add: int8_def)

lemma traverse_total:
  assumes "\<And>x. x \<in> set xs \<Longrightarrow> f x = Inr (g x)"
  shows "traverse f xs = Inr (map g xs)"
  using assms by (induction xs) simp_all

lemma np_index_nat: "i < length xs \<Longrightarrow> np_index xs (int i) = Inr (xs ! i)"
  by (simp add: np_index_def np_norm_def)

lemma np_index2_nat:
  "i < length a \<Longrightarrow> j < length (a ! i) \<Longrightarrow> np_index2 a (int i) (int j) = Inr (a ! i ! j)"
  by (simp add: np_index2_def np_index_nat)

lemma int8_nat: "n < 128 \<Longrightarrow> int8 (int n) = int n"
  by (simp add: int8_def)

subsection \<open>Card conversions\<close>

lemma Leduc_2d_of_1d:
  assumes "N_CARDS_IN_DECK rules = N_RANKS rules * N_SUITS rules"
    and "N_CARDS_IN_DECK rules \<le> 128"
    and "c < N_CARDS_IN_DECK rules"
  shows "Leduc_get_2d_card rules (int c) = Inr (int (c div N_SUITS rules), int (c mod N_SUITS rules))"
    and "c div N_SUITS rules < N_RANKS rules" and "c mod N_SUITS rules < N_SUITS rules"
    and "Leduc_get_1d_card rules (int (c div N_SUITS rules), int (c mod N_SUITS rules)) = int c"
proof -
  from assms have pos: "0 < N_SUITS rules" by (cases "N_SUITS rules = 0") auto
  show d: "c div N_SUITS rules < N_RANKS rules"
    using assms pos by (simp add: less_mult_imp_div_less)
  show m: "c mod N_SUITS rules < N_SUITS rules" using pos by simp
  have "c div N_SUITS rules \<le> c" "c mod N_SUITS rules \<le> c" by simp_all
  then have b: "c div N_SUITS rules < 128" "c mod N_SUITS rules < 128" using assms by linarith+
  have "int c div int (N_SUITS rules) = int (c div N_SUITS rules)"
       "int c mod int (N_SUITS rules) = int (c mod N_SUITS rules)"
    by (simp_all add: zdiv_int zmod_int)
  then show "Leduc_get_2d_card rules (int c) = Inr (int (c div N_SUITS rules), int (c mod N_SUITS rules))"
    using pos b by (simp add: Leduc_get_2d_card_def int8_nat)
  have "int (c div N_SUITS rules) * int (N_SUITS rules) + int (c mod N_SUITS rules) = int c"
    by (metis div_mult_mod_eq of_nat_add of_nat_mult)
  moreover have "c < 128" using assms by simp
  ultimately show "Leduc_get_1d_card rules (int (c div N_SUITS rules), int (c mod N_SUITS rules)) = int c"
    by (simp add: Leduc_get_1d_card_def int8_nat)
qed

lemma Leduc_1d_of_2d:
  assumes "N_CARDS_IN_DECK rules = N_RANKS rules * N_SUITS rules"
    and "N_CARDS_IN_DECK rules \<le> 128"
    and "r < N_RANKS rules" and "s < N_SUITS rules"
  shows "Leduc_get_1d_card rules (int r, int s) = int (r * N_SUITS rules + s)"
    and "r * N_SUITS rules + s < N_CARDS_IN_DECK rules"
    and "Leduc_get_2d_card rules (int (r * N_SUITS rules + s)) = Inr (int r, int s)"
proof -
  have "r * N_SUITS rules + s < Suc r * N_SUITS rules" using assms by simp
  also have "\<dots> \<le> N_RANKS rules * N_SUITS rules" using assms by (intro mult_le_mono1) simp
  finally show lt: "r * N_SUITS rules + s < N_CARDS_IN_DECK rules" using assms by simp
  then have "r * N_SUITS rules + s < 128" using assms by simp
  moreover have "int r * int (N_SUITS rules) + int s = int (r * N_SUITS rules + s)" by simp
  ultimately show "Leduc_get_1d_card rules (int r, int s) = int (r * N_SUITS rules + s)"
    unfolding Leduc_get_1d_card_def fst_conv snd_conv by (simp only: int8_nat)
  have "(r * N_SUITS rules + s) div N_SUITS rules = r" "(r * N_SUITS rules + s) mod N_SUITS rules = s"
    using assms by simp_all
  then show "Leduc_get_2d_card rules (int (r * N_SUITS rules + s)) = Inr (int r, int s)"
    using Leduc_2d_of_1d(1)[OF assms(1,2) lt] by simp
qed

lemma Leduc_1d_2d_LUT:
  assumes "N_CARDS_IN_DECK rules = N_RANKS rules * N_SUITS rules"
    and "N_CARDS_IN_DECK rules \<le> 128"
  shows "Leduc_get_1d_card_2_2d_card_LUT rules =
    Inr (map (\<lambda>c. (int (c div N_SUITS rules), int (c mod N_SUITS rules))) [0..<N_CARDS_IN_DECK rules])"
  unfolding Leduc_get_1d_card_2_2d_card_LUT_def
  by (rule traverse_total) (simp add: Leduc_2d_of_1d(1)[OF assms])

lemma Leduc_2d_1d_LUT:
  assumes "N_CARDS_IN_DECK rules = N_RANKS rules * N_SUITS rules"
    and "N_CARDS_IN_DECK rules \<le> 128"
    and "r < N_RANKS rules" and "s < N_SUITS rules"
  shows "np_index2 (Leduc_get_2d_card_2_1d_card_LUT rules) (int r) (int s) = Inr (int (r * N_SUITS rules + s))"
proof -
  have lt: "r * N_SUITS rules + s < N_CARDS_IN_DECK rules" by (rule Leduc_1d_of_2d(2)[OF assms])
  have "r \<le> r * N_SUITS rules + s" using assms(4) by (cases "N_SUITS rules") simp_all
  then have r: "r < 128" using lt assms(2) by linarith
  have "s \<le> r * N_SUITS rules + s" by simp
  then have s: "s < 128" using lt assms(2) by linarith
  have c: "r * N_SUITS rules + s < 128" using lt assms(2) by linarith
  have "Leduc_get_2d_card_2_1d_card_LUT rules ! r ! s =
      int8 (Leduc_get_1d_card rules (int8 (int r), int8 (int s)))"
    using assms(3,4) by (simp add: Leduc_get_2d_card_2_1d_card_LUT_def)
  also have "\<dots> = int8 (Leduc_get_1d_card rules (int r, int s))"
    using r s by (simp only: int8_nat)
  also have "\<dots> = int (r * N_SUITS rules + s)"
    using c by (simp only: Leduc_1d_of_2d(1)[OF assms] int8_nat)
  finally have "Leduc_get_2d_card_2_1d_card_LUT rules ! r ! s = int (r * N_SUITS rules + s)" .
  moreover have "r < length (Leduc_get_2d_card_2_1d_card_LUT rules)"
    "s < length (Leduc_get_2d_card_2_1d_card_LUT rules ! r)"
    using assms(3,4) by (simp_all add: Leduc_get_2d_card_2_1d_card_LUT_def)
  ultimately show ?thesis by (simp add: np_index2_nat)
qed

text \<open>C6: on a deck of \<open>N_RANKS * N_SUITS\<close> cards that fits the int8 cells, the
  1D-to-2D and 2D-to-1D conversions never fail, stay in range and are inverse to each
  other: a card id \<open>c\<close> of the deck goes to a (rank, suit) pair of the deck and back to
  \<open>c\<close>, a pair \<open>(r, s)\<close> of the deck goes to a card id of the deck and back to
  \<open>(r, s)\<close>, and the two tables built from the conversions hold exactly these values.\<close>

theorem card_conversions_inverse:
  assumes "N_CARDS_IN_DECK rules = N_RANKS rules * N_SUITS rules"
    and "N_CARDS_IN_DECK rules \<le> 128"
    and "c < N_CARDS_IN_DECK rules"
    and "r < N_RANKS rules" and "s < N_SUITS rules"
  shows "Leduc_get_2d_card rules (int c) = Inr (int (c div N_SUITS rules), int (c mod N_SUITS rules))
    \<and> c div N_SUITS rules < N_RANKS rules \<and> c mod N_SUITS rules < N_SUITS rules
    \<and> Leduc_get_1d_card rules (int (c div N_SUITS rules), int (c mod N_SUITS rules)) = int c
    \<and> Leduc_get_1d_card rules (int r, int s) = int (r * N_SUITS rules + s)
    \<and> r * N_SUITS rules + s < N_CARDS_IN_DECK rules
    \<and> Leduc_get_2d_card rules (Leduc_get_1d_card rules (int r, int s)) = Inr (int r, int s)
    \<and> Leduc_get_1d_card_2_2d_card_LUT rules =
        Inr (map (\<lambda>c. (int (c div N_SUITS rules), int (c mod N_SUITS rules)))
               [0..<N_CARDS_IN_DECK rules])
    \<and> np_index2 (Leduc_get_2d_card_2_1d_card_LUT rules) (int r) (int s) =
        Inr (Leduc_get_1d_card rules (int r, int s))"
  using Leduc_2d_of_1d[OF assms(1,2,3)] Leduc_1d_of_2d[OF assms(1,2,4,5)]
    Leduc_1d_2d_LUT[OF assms(1,2)] Leduc_2d_1d_LUT[OF assms(1,2,4,5)]
  by simp

theorem card_conversions_inverse_witness:
  "Leduc_get_2d_card leduc_rules 5 = Inr (2, 1)
   \<and> Leduc_get_1d_card leduc_rules (2, 1) = 5
   \<and> Leduc_get_2d_card leduc_rules (Leduc_get_1d_card leduc_rules (2, 1)) = Inr (2, 1)
   \<and> np_index2 (Leduc_get_2d_card_2_1d_card_LUT leduc_rules) 2 1 = Inr 5"
  using card_conversions_inverse [of leduc_rules 5 2 1]
  by (simp add: leduc_rules_def)
subsection \<open>Combinations\<close>

lemma length_combinations: "length (combinations xs r) = length xs choose r"
  by (induction xs r rule: combinations.induct) simp_all

lemma combinations_length_elem: "ys \<in> set (combinations xs r) \<Longrightarrow> length ys = r"
  by (induction xs r arbitrary: ys rule: combinations.induct) auto

lemma combinations_set_elem: "ys \<in> set (combinations xs r) \<Longrightarrow> set ys \<subseteq> set xs"
  by (induction xs r arbitrary: ys rule: combinations.induct) fastforce+

lemma combinations_sorted_elem:
  "ys \<in> set (combinations xs r) \<Longrightarrow> sorted_wrt R xs \<Longrightarrow> sorted_wrt R ys"
proof (induction xs r arbitrary: ys rule: combinations.induct)
  case (3 x xs r)
  then show ?case using combinations_set_elem by fastforce
qed simp_all

lemma combinations_complete:
  fixes xs :: "('a::linorder) list"
  shows "sorted_wrt (<) xs \<Longrightarrow> sorted_wrt (<) ys \<Longrightarrow> set ys \<subseteq> set xs \<Longrightarrow> length ys = r
    \<Longrightarrow> ys \<in> set (combinations xs r)"
proof (induction xs r arbitrary: ys rule: combinations.induct)
  case (1 xs)
  then show ?case by simp
next
  case (2 r)
  then show ?case by simp
next
  case (3 x xs r)
  from "3.prems"(4) obtain y ys' where ys: "ys = y # ys'" by (cases ys) auto
  show ?case
  proof (cases "y = x")
    case True
    have "set ys' \<subseteq> set xs" using "3.prems" ys True by auto
    then have "ys' \<in> set (combinations xs r)" using "3.prems" ys by (intro "3.IH"(1)) auto
    then show ?thesis using ys True by simp
  next
    case False
    then have "x < y" using "3.prems" ys by auto
    then have "set ys \<subseteq> set xs" using "3.prems" ys by fastforce
    then have "ys \<in> set (combinations xs (Suc r))" using "3.prems" by (intro "3.IH"(2)) auto
    then show ?thesis by simp
  qed
qed

lemma combinations_distinct: "distinct xs \<Longrightarrow> distinct (combinations xs r)"
proof (induction xs r rule: combinations.induct)
  case (3 x xs r)
  then show ?case using combinations_set_elem by (fastforce simp: distinct_map)
qed simp_all

lemma combinations_lex_sorted:
  fixes xs :: "('a::linorder) list"
  shows "sorted_wrt (<) xs \<Longrightarrow>
    sorted_wrt (\<lambda>u v. (u, v) \<in> lexord {(a, b). a < b}) (combinations xs r)"
proof (induction xs r rule: combinations.induct)
  case (3 x xs r)
  have a: "sorted_wrt (\<lambda>u v. (u, v) \<in> lexord {(a, b). a < b}) (map ((#) x) (combinations xs r))"
    using 3 by (simp add: sorted_wrt_map)
  have b: "(x # u, v) \<in> lexord {(a, b). a < b}" if v_in: "v \<in> set (combinations xs (Suc r))" for u v
  proof -
    have "length v = Suc r" by (rule combinations_length_elem[OF v_in])
    then obtain z zs where v: "v = z # zs" by (cases v) auto
    then have "z \<in> set xs" using combinations_set_elem[OF v_in] by auto
    then show ?thesis using "3.prems" v by auto
  qed
  show ?case using a b 3 by (auto simp: sorted_wrt_append)
qed simp_all

lemma combinations_count_containing:
  "distinct xs \<Longrightarrow> c \<in> set xs \<Longrightarrow>
   length (filter (\<lambda>ys. c \<in> set ys) (combinations xs (Suc r))) = (length xs - 1) choose r"
proof (induction xs arbitrary: r)
  case Nil
  then show ?case by simp
next
  case (Cons x xs)
  show ?case
  proof (cases "c = x")
    case True
    then have "c \<notin> set xs" using Cons.prems by simp
    then have "filter (\<lambda>ys. c \<in> set ys) (combinations xs (Suc r)) = []"
      using combinations_set_elem by (fastforce simp: filter_empty_conv)
    then show ?thesis using True by (simp add: filter_map o_def length_combinations)
  next
    case False
    then have c: "c \<in> set xs" and d: "distinct xs" using Cons.prems by auto
    then obtain m where m: "length xs = Suc m" by (cases xs) auto
    have snd: "length (filter (\<lambda>ys. c \<in> set ys) (combinations xs (Suc r))) = m choose r"
      using Cons.IH[OF d c] m by simp
    show ?thesis
    proof (cases r)
      case 0
      then show ?thesis using False snd m by (simp add: filter_map o_def)
    next
      case (Suc r')
      have "length (filter (\<lambda>ys. c \<in> set ys) (combinations xs (Suc r'))) = m choose r'"
        using Cons.IH[OF d c] m by simp
      then show ?thesis using False snd m Suc by (simp add: filter_map o_def)
    qed
  qed
qed

lemma combinations_map: "combinations (map f xs) r = map (map f) (combinations xs r)"
  by (induction xs r rule: combinations.induct) simp_all

lemma combinations_upt:
  "combinations [a..<n] (Suc r) =
     concat (map (\<lambda>i. map ((#) i) (combinations [Suc i..<n] r)) [a..<n])"
proof (induction "n - a" arbitrary: a)
  case 0
  then show ?case by simp
next
  case (Suc d)
  then have lt: "a < n" and d: "d = n - Suc a" by simp_all
  have "[a..<n] = a # [Suc a..<n]" using lt by (simp add: upt_conv_Cons)
  then show ?case using Suc.hyps(1)[OF d] by simp
qed

subsection \<open>The enumeration loops\<close>

lemma int32_nat: "n < 2147483648 \<Longrightarrow> int32 (int n) = int n"
  by (simp add: int32_def)

lemma assign_pair: "assign store k (f, n) = (f(k := store n), n + 1)"
  by (simp add: assign_def)

lemma fold_concat_map: "fold f (concat (map g xs)) = fold (\<lambda>x. fold f (g x)) xs"
  by (induction xs) simp_all

lemma fold_map_key: "fold f (map g xs) = fold (\<lambda>x. f (g x)) xs"
  by (simp add: fold_map o_def)

lemma fold_assign_snd: "snd (fold (assign store) ks (f, n)) = n + int (length ks)"
  by (induction ks arbitrary: f n) (simp_all add: assign_pair)

lemma fold_assign_notin: "k \<notin> set ks \<Longrightarrow> fst (fold (assign store) ks (f, n)) k = f k"
  by (induction ks arbitrary: f n) (auto simp: assign_pair)

lemma fold_assign_nth:
  "distinct ks \<Longrightarrow> i < length ks \<Longrightarrow> fst (fold (assign store) ks (f, n)) (ks ! i) = store (n + int i)"
proof (induction ks arbitrary: f n i)
  case Nil
  then show ?case by simp
next
  case (Cons k ks)
  show ?case
  proof (cases i)
    case 0
    then show ?thesis using Cons.prems by (simp add: assign_pair fold_assign_notin)
  next
    case (Suc j)
    have "fst (fold (assign store) ks (f(k := store n), n + 1)) (ks ! j) = store (n + 1 + int j)"
      using Cons.prems Suc by (intro Cons.IH) auto
    then show ?thesis using Suc by (simp add: assign_pair add.assoc)
  qed
qed

lemma fold_nested4:
  "fold (\<lambda>i1. fold (\<lambda>i2. fold (\<lambda>i3. fold (\<lambda>i4. assign store (i1, i2, i3, i4))
       [Suc i3..<cmax]) [Suc i2..<cmax]) [Suc i1..<cmax]) [0..<cmax]
   = fold (assign store) (visited4 cmax)"
  by (simp add: visited4_def fold_concat_map fold_map_key)

lemma fold_nested2:
  "fold (\<lambda>c1. fold (\<lambda>c2. assign store (c1, c2)) [Suc c1..<n]) [0..<n] = fold (assign store) (visited2 n)"
  by (simp add: visited2_def fold_concat_map fold_map_key)

lemma combinations_one: "combinations xs (Suc 0) = map (\<lambda>x. [x]) xs"
  by (induction xs) simp_all

lemma visited4_combinations:
  "map (\<lambda>(a, b, c, d). [a, b, c, d]) (visited4 cmax) = combinations [0..<cmax] 4"
proof -
  have "combinations [0..<cmax] (Suc (Suc (Suc (Suc 0)))) =
      map (\<lambda>(a, b, c, d). [a, b, c, d]) (visited4 cmax)"
    by (simp add: combinations_upt combinations_one visited4_def map_concat o_def)
  then show ?thesis by (simp add: eval_nat_numeral)
qed

lemma visited2_combinations:
  "map (\<lambda>(a, b). [a, b]) (visited2 n) = combinations [0..<n] 2"
proof -
  have "combinations [0..<n] (Suc (Suc 0)) = map (\<lambda>(a, b). [a, b]) (visited2 n)"
    by (simp add: combinations_upt combinations_one visited2_def map_concat o_def)
  then show ?thesis by (simp add: eval_nat_numeral)
qed

lemma choose_50_2: "(50::nat) choose 2 = 1225"
  by (simp add: choose_two)

lemma choose_51_3: "(51::nat) choose 3 = 20825"
proof -
  have "3 * ((51::nat) choose 3) = 51 * (50 choose 2)"
    using times_binomial_minus1_eq[of 3 51] by simp
  then show ?thesis by (simp add: choose_50_2)
qed

lemma choose_52_4: "(52::nat) choose 4 = 270725"
proof -
  have "4 * ((52::nat) choose 4) = 52 * (51 choose 3)"
    using times_binomial_minus1_eq[of 4 52] by simp
  then show ?thesis by (simp add: choose_51_3)
qed

subsection \<open>Hole cards and range indexes\<close>

lemma sorted_np_arange: "sorted_wrt (<) (np_arange n)"
  by (simp add: np_arange_def sorted_wrt_map)

lemma distinct_np_arange: "distinct (np_arange n)"
  by (simp add: np_arange_def distinct_map inj_on_def)

lemma length_np_arange: "length (np_arange n) = n"
  by (simp add: np_arange_def)

lemma PLO_idx2hc_visited:
  "PLO_get_idx_2_hole_card_LUT = map (\<lambda>(a, b, c, d). [int a, int b, int c, int d]) (visited4 52)"
proof -
  have "PLO_get_idx_2_hole_card_LUT = map (map int) (combinations [0..<52] 4)"
    by (simp only: PLO_get_idx_2_hole_card_LUT_def np_arange_def combinations_map)
  also have "\<dots> = map (map int) (map (\<lambda>(a, b, c, d). [a, b, c, d]) (visited4 52))"
    by (simp only: visited4_combinations)
  also have "\<dots> = map (\<lambda>(a, b, c, d). [int a, int b, int c, int d]) (visited4 52)"
    by (simp add: split_def)
  finally show ?thesis .
qed

lemma length_visited4: "length (visited4 n) = n choose 4"
  using arg_cong[OF visited4_combinations[of n], of length] by (simp add: length_combinations)

lemma length_visited2: "length (visited2 n) = n choose 2"
  using arg_cong[OF visited2_combinations[of n], of length] by (simp add: length_combinations)

lemma distinct_visited4: "distinct (visited4 n)"
proof -
  have "distinct (map (\<lambda>(a, b, c, d). [a, b, c, d]) (visited4 n))"
    by (simp only: visited4_combinations combinations_distinct distinct_upt)
  then show ?thesis by (simp add: distinct_map)
qed

lemma distinct_visited2: "distinct (visited2 n)"
proof -
  have "distinct (map (\<lambda>(a, b). [a, b]) (visited2 n))"
    by (simp only: visited2_combinations combinations_distinct distinct_upt)
  then show ?thesis by (simp add: distinct_map)
qed

lemma visited4_bounds:
  "(a, b, c, d) \<in> set (visited4 n) \<Longrightarrow> a < n \<and> b < n \<and> c < n \<and> d < n"
  by (auto simp: visited4_def)

lemma visited2_bounds: "(a, b) \<in> set (visited2 n) \<Longrightarrow> a < n \<and> b < n"
  by (auto simp: visited2_def)

lemma np_norm_nat: "i < n \<Longrightarrow> np_norm n (int i) = Inr i"
  by (simp add: np_norm_def)

lemma PLO_lookup_row:
  assumes "N_CARDS_IN_DECK rules = 52" and "i < 270725"
  shows "lookup_hole_cards PLO rules backend (PLO_get_idx_2_hole_card_LUT ! i) = Inr (int i)"
proof -
  have len: "i < length (visited4 52)" using assms by (simp add: length_visited4 choose_52_4)
  obtain a b c d where k: "visited4 52 ! i = (a, b, c, d)" by (metis prod_cases4)
  then have "(a, b, c, d) \<in> set (visited4 52)" using len by (metis nth_mem)
  then have bd: "a < 52" "b < 52" "c < 52" "d < 52" using visited4_bounds by blast+
  have row: "PLO_get_idx_2_hole_card_LUT ! i = [int a, int b, int c, int d]"
    using len k by (simp add: PLO_idx2hc_visited)
  have "cell4 (PLO_get_hole_card_2_idx_LUT rules) (visited4 52 ! i) = int32 (0 + int i)"
    unfolding PLO_get_hole_card_2_idx_LUT_def Let_def assms(1) fold_nested4
    using fold_assign_nth[OF distinct_visited4 len] by simp
  moreover have "int32 (0 + int i) = int i" using assms(2) by (simp add: int32_nat)
  moreover have "dim4 (PLO_get_hole_card_2_idx_LUT rules) = 52"
    by (simp add: PLO_get_hole_card_2_idx_LUT_def Let_def assms(1))
  ultimately show ?thesis
    using bd by (simp add: lookup_hole_cards_def row np_index4_def np_norm_nat k)
qed


lemma spec_idx2hc_visited:
  "spec_idx_2_hole_card_lut n = map (\<lambda>(a, b). [int a, int b]) (visited2 n)"
  by (simp add: spec_idx_2_hole_card_lut_def visited2_def map_concat o_def)

lemma spec_idx2hc_combinations: "spec_idx_2_hole_card_lut n = combinations (np_arange n) 2"
proof -
  have "combinations (np_arange n) 2 = map (map int) (map (\<lambda>(a, b). [a, b]) (visited2 n))"
    by (simp only: np_arange_def combinations_map visited2_combinations)
  also have "\<dots> = map (\<lambda>(a, b). [int a, int b]) (visited2 n)"
    by (simp add: split_def)
  finally show ?thesis by (simp only: spec_idx2hc_visited)
qed

lemma Holdem_lookup_row:
  assumes "variant_rules Holdem rules backend" and "i < RANGE_SIZE rules"
  shows "lookup_hole_cards Holdem rules backend (get_idx_2_hole_card_LUT Holdem rules backend ! i)
    = Inr (int i)"
proof -
  define n where "n = N_CARDS_IN_DECK rules"
  have t1: "get_idx_2_hole_card_lut backend = spec_idx_2_hole_card_lut n"
    and t2: "get_hole_card_2_idx_lut backend = spec_hole_card_2_idx_lut n"
    and rs: "RANGE_SIZE rules = n choose 2"
    using assms(1) by (simp_all add: variant_rules_def n_def)
  have len: "i < length (visited2 n)" using assms(2) rs by (simp add: length_visited2)
  obtain a b where k: "visited2 n ! i = (a, b)" by (cases "visited2 n ! i")
  then have "(a, b) \<in> set (visited2 n)" using len by (metis nth_mem)
  then have bd: "a < n" "b < n" using visited2_bounds by blast+
  have row: "get_idx_2_hole_card_LUT Holdem rules backend ! i = [int a, int b]"
    using len k
    by (simp add: get_idx_2_hole_card_LUT_def Holdem_get_idx_2_hole_card_LUT_def t1 spec_idx2hc_visited)
  have "fst (fold (assign (\<lambda>n. n)) (visited2 n) (\<lambda>_. - 2, 0)) (visited2 n ! i) = 0 + int i"
    by (rule fold_assign_nth[OF distinct_visited2 len])
  then have "spec_hole_card_2_idx_lut n ! a ! b = int i"
    using bd by (simp add: spec_hole_card_2_idx_lut_def Let_def fold_nested2 k)
  moreover have "a < length (spec_hole_card_2_idx_lut n)" "b < length (spec_hole_card_2_idx_lut n ! a)"
    using bd by (simp_all add: spec_hole_card_2_idx_lut_def Let_def)
  ultimately have "np_index2 (spec_hole_card_2_idx_lut n) (int a) (int b) = Inr (int i)"
    by (simp add: np_index2_nat)
  then show ?thesis
    by (simp add: lookup_hole_cards_def row Holdem_get_hole_card_2_idx_LUT_def t2)
qed

lemma Leduc_lookup_row:
  assumes "variant_rules Leduc rules backend" and "i < RANGE_SIZE rules"
  shows "lookup_hole_cards Leduc rules backend (get_idx_2_hole_card_LUT Leduc rules backend ! i)
    = Inr (int i)"
proof -
  have i: "i < N_CARDS_IN_DECK rules" using assms by (simp add: variant_rules_def)
  then have row: "get_idx_2_hole_card_LUT Leduc rules backend ! i = [int i]"
    by (simp add: get_idx_2_hole_card_LUT_def Leduc_get_idx_2_hole_card_LUT_def np_arange_def)
  have "np_index2 (Leduc_get_hole_card_2_idx_LUT rules) (int i) (int 0) = Inr (int i)"
    using i by (subst np_index2_nat) (simp_all add: Leduc_get_hole_card_2_idx_LUT_def np_arange_def)
  then show ?thesis by (simp add: lookup_hole_cards_def row)
qed

lemma idx_2_hole_card_combinations:
  assumes "variant_rules v rules backend"
  shows "get_idx_2_hole_card_LUT v rules backend =
    combinations (np_arange (N_CARDS_IN_DECK rules)) (N_HOLE_CARDS rules)"
proof (cases v)
  case Leduc
  then show ?thesis using assms
    by (simp add: variant_rules_def get_idx_2_hole_card_LUT_def Leduc_get_idx_2_hole_card_LUT_def
        combinations_one)
next
  case Holdem
  then show ?thesis using assms
    by (simp add: variant_rules_def get_idx_2_hole_card_LUT_def Holdem_get_idx_2_hole_card_LUT_def
        spec_idx2hc_combinations)
next
  case PLO
  then show ?thesis using assms
    by (simp add: variant_rules_def get_idx_2_hole_card_LUT_def PLO_get_idx_2_hole_card_LUT_def)
qed

lemma length_idx_2_hole_card:
  assumes "variant_rules v rules backend"
  shows "length (get_idx_2_hole_card_LUT v rules backend) = RANGE_SIZE rules"
  using assms
  by (simp add: idx_2_hole_card_combinations[OF assms] length_combinations length_np_arange
      variant_rules_def)

lemma lookup_row:
  assumes "variant_rules v rules backend" and "i < RANGE_SIZE rules"
  shows "lookup_hole_cards v rules backend (get_idx_2_hole_card_LUT v rules backend ! i) = Inr (int i)"
proof (cases v)
  case Leduc
  then show ?thesis using Leduc_lookup_row assms by simp
next
  case Holdem
  then show ?thesis using Holdem_lookup_row assms by simp
next
  case PLO
  then have "N_CARDS_IN_DECK rules = 52" "i < 270725"
    using assms by (simp_all add: variant_rules_def choose_52_4)
  then show ?thesis using PLO PLO_lookup_row
    by (simp add: get_idx_2_hole_card_LUT_def)
qed

lemma in_np_arange: "x \<in> set (np_arange n) \<longleftrightarrow> 0 \<le> x \<and> x < int n"
proof
  assume "x \<in> set (np_arange n)"
  then show "0 \<le> x \<and> x < int n" by (auto simp: np_arange_def)
next
  assume "0 \<le> x \<and> x < int n"
  then have "x = int (nat x)" "nat x < n" by auto
  then show "x \<in> set (np_arange n)" unfolding np_arange_def by (metis atLeast0LessThan image_eqI lessThan_iff set_map set_upt)
qed

lemma hole_cards_found:
  assumes vr: "variant_rules v rules backend"
    and "length h = N_HOLE_CARDS rules" and "sorted_wrt (<) h"
    and "list_all (\<lambda>c. 0 \<le> c \<and> c < int (N_CARDS_IN_DECK rules)) h"
  shows "\<exists>n<RANGE_SIZE rules. lookup_hole_cards v rules backend h = Inr (int n)
    \<and> get_idx_2_hole_card_LUT v rules backend ! n = h"
proof -
  have "set h \<subseteq> set (np_arange (N_CARDS_IN_DECK rules))"
    using assms(4) by (auto simp: list_all_iff in_np_arange)
  then have "h \<in> set (get_idx_2_hole_card_LUT v rules backend)"
    unfolding idx_2_hole_card_combinations[OF vr]
    using assms(2,3) by (intro combinations_complete sorted_np_arange)
  then obtain n where n: "n < length (get_idx_2_hole_card_LUT v rules backend)"
    "get_idx_2_hole_card_LUT v rules backend ! n = h"
    by (auto simp: in_set_conv_nth)
  then have lt: "n < RANGE_SIZE rules" by (simp add: length_idx_2_hole_card[OF vr])
  then show ?thesis using lookup_row[OF vr lt] n(2) by auto
qed

lemma idx_2_hole_card_row:
  assumes vr: "variant_rules v rules backend" and "i < RANGE_SIZE rules"
  shows "sorted_wrt (<) (get_idx_2_hole_card_LUT v rules backend ! i)"
    and "length (get_idx_2_hole_card_LUT v rules backend ! i) = N_HOLE_CARDS rules"
    and "list_all (\<lambda>c. 0 \<le> c \<and> c < int (N_CARDS_IN_DECK rules))
           (get_idx_2_hole_card_LUT v rules backend ! i)"
proof -
  have "get_idx_2_hole_card_LUT v rules backend ! i \<in> set (get_idx_2_hole_card_LUT v rules backend)"
    using assms by (simp add: length_idx_2_hole_card[OF vr])
  then have m: "get_idx_2_hole_card_LUT v rules backend ! i
      \<in> set (combinations (np_arange (N_CARDS_IN_DECK rules)) (N_HOLE_CARDS rules))"
    by (simp only: idx_2_hole_card_combinations[OF vr])
  show "sorted_wrt (<) (get_idx_2_hole_card_LUT v rules backend ! i)"
    by (rule combinations_sorted_elem[OF m sorted_np_arange])
  show "length (get_idx_2_hole_card_LUT v rules backend ! i) = N_HOLE_CARDS rules"
    by (rule combinations_length_elem[OF m])
  show "list_all (\<lambda>c. 0 \<le> c \<and> c < int (N_CARDS_IN_DECK rules))
           (get_idx_2_hole_card_LUT v rules backend ! i)"
    using combinations_set_elem[OF m] by (auto simp: list_all_iff in_np_arange)
qed

lemma idx_2_hole_card_lex:
  assumes vr: "variant_rules v rules backend" and "i < j" and "j < RANGE_SIZE rules"
  shows "(get_idx_2_hole_card_LUT v rules backend ! i, get_idx_2_hole_card_LUT v rules backend ! j)
    \<in> lexord {(a, b). a < b}"
proof -
  have "sorted_wrt (\<lambda>u v. (u, v) \<in> lexord {(a, b). a < b}) (get_idx_2_hole_card_LUT v rules backend)"
    unfolding idx_2_hole_card_combinations[OF vr]
    by (rule combinations_lex_sorted[OF sorted_np_arange])
  then show ?thesis using assms(2,3)
    by (simp add: sorted_wrt_iff_nth_less length_idx_2_hole_card[OF vr])
qed

text \<open>C1: for every variant the hole-card indexing is a bijection. The table
  \<open>idx -> hole cards\<close> has \<open>RANGE_SIZE\<close> rows; the row of a range index \<open>i\<close> is an
  ascending tuple of \<open>N_HOLE_CARDS\<close> card ids of the deck, and looking it up in the table
  \<open>hole cards -> idx\<close> returns \<open>i\<close>; every ascending tuple \<open>h\<close> of \<open>N_HOLE_CARDS\<close>
  card ids of the deck is found in the table \<open>hole cards -> idx\<close> at a range index whose
  row is \<open>h\<close> again; and the rows are in lexicographic order of their card ids.\<close>

theorem hole_card_indexing_bijection:
  assumes "variant_rules v rules backend"
  shows "length (get_idx_2_hole_card_LUT v rules backend) = RANGE_SIZE rules
    \<and> (i < RANGE_SIZE rules \<longrightarrow>
         lookup_hole_cards v rules backend (get_idx_2_hole_card_LUT v rules backend ! i) = Inr (int i)
         \<and> sorted_wrt (<) (get_idx_2_hole_card_LUT v rules backend ! i)
         \<and> length (get_idx_2_hole_card_LUT v rules backend ! i) = N_HOLE_CARDS rules
         \<and> list_all (\<lambda>c. 0 \<le> c \<and> c < int (N_CARDS_IN_DECK rules))
              (get_idx_2_hole_card_LUT v rules backend ! i))
    \<and> (length h = N_HOLE_CARDS rules \<and> sorted_wrt (<) h
         \<and> list_all (\<lambda>c. 0 \<le> c \<and> c < int (N_CARDS_IN_DECK rules)) h \<longrightarrow>
         (\<exists>n<RANGE_SIZE rules. lookup_hole_cards v rules backend h = Inr (int n)
            \<and> get_idx_2_hole_card_LUT v rules backend ! n = h))
    \<and> (i < j \<and> j < RANGE_SIZE rules \<longrightarrow>
         (get_idx_2_hole_card_LUT v rules backend ! i, get_idx_2_hole_card_LUT v rules backend ! j)
           \<in> lexord {(a, b). a < b})"
  using length_idx_2_hole_card[OF assms] lookup_row[OF assms] idx_2_hole_card_row[OF assms]
    hole_cards_found[OF assms] idx_2_hole_card_lex[OF assms]
  by blast

theorem hole_card_indexing_bijection_witness:
  "length (get_idx_2_hole_card_LUT PLO plo_rules standard_backend) = 270725
   \<and> lookup_hole_cards PLO plo_rules standard_backend
        (get_idx_2_hole_card_LUT PLO plo_rules standard_backend ! 7) = Inr 7
   \<and> (\<exists>n<270725. lookup_hole_cards PLO plo_rules standard_backend [0, 1, 2, 3] = Inr (int n)
        \<and> get_idx_2_hole_card_LUT PLO plo_rules standard_backend ! n = [0, 1, 2, 3])
   \<and> (get_idx_2_hole_card_LUT PLO plo_rules standard_backend ! 7,
       get_idx_2_hole_card_LUT PLO plo_rules standard_backend ! 8) \<in> lexord {(a, b). a < b}"
proof -
  have vr: "variant_rules PLO plo_rules standard_backend"
    by (simp add: variant_rules_def plo_rules_def choose_52_4)
  have rs: "RANGE_SIZE plo_rules = 270725" "N_HOLE_CARDS plo_rules = 4"
    "N_CARDS_IN_DECK plo_rules = 52"
    by (simp_all add: plo_rules_def)
  show ?thesis
    using hole_card_indexing_bijection[OF vr, of 7 "[0, 1, 2, 3]" 8]
    unfolding rs by simp
qed

subsection \<open>Card membership\<close>

lemma length_filter_nth:
  "length (filter (\<lambda>i. P (L ! i)) [0..<length L]) = length (filter P L)"
proof -
  have "filter P L = filter P (map (\<lambda>i. L ! i) [0..<length L])" by (simp only: map_nth)
  also have "\<dots> = map (\<lambda>i. L ! i) (filter (\<lambda>i. P (L ! i)) [0..<length L])"
    by (simp add: filter_map o_def)
  finally show ?thesis by simp
qed

lemma variant_hole_cards_pos:
  "variant_rules v rules backend \<Longrightarrow> N_HOLE_CARDS rules = Suc (N_HOLE_CARDS rules - 1)"
  by (cases v) (simp_all add: variant_rules_def)

lemma members_count:
  assumes vr: "variant_rules v rules backend" and c: "c < N_CARDS_IN_DECK rules"
  shows "length (filter (\<lambda>i. int c \<in> set (get_idx_2_hole_card_LUT v rules backend ! i))
           [0..<RANGE_SIZE rules])
    = (N_CARDS_IN_DECK rules - 1) choose (N_HOLE_CARDS rules - 1)"
proof -
  let ?L = "get_idx_2_hole_card_LUT v rules backend"
  have L: "?L = combinations (np_arange (N_CARDS_IN_DECK rules)) (Suc (N_HOLE_CARDS rules - 1))"
    using idx_2_hole_card_combinations[OF vr] variant_hole_cards_pos[OF vr] by simp
  have "length (filter (\<lambda>i. int c \<in> set (?L ! i)) [0..<length ?L])
      = length (filter (\<lambda>ys. int c \<in> set ys) ?L)"
    by (rule length_filter_nth)
  also have "\<dots> = (length (np_arange (N_CARDS_IN_DECK rules)) - 1) choose (N_HOLE_CARDS rules - 1)"
    unfolding L using c
    by (intro combinations_count_containing distinct_np_arange) (simp add: in_np_arange)
  finally show ?thesis by (simp add: length_idx_2_hole_card[OF vr] length_np_arange)
qed

lemma Holdem_fill_row_result:
  assumes "\<And>i. i \<in> set js \<Longrightarrow> i < length a \<and> i < 2147483648"
    and "n + length (filter (\<lambda>i. c \<in> set (a ! i)) js) \<le> length row"
  shows "Holdem_fill_row a c js (row, n) =
    Inr (take n row @ map int (filter (\<lambda>i. c \<in> set (a ! i)) js)
           @ drop (n + length (filter (\<lambda>i. c \<in> set (a ! i)) js)) row,
         n + length (filter (\<lambda>i. c \<in> set (a ! i)) js))"
  using assms
proof (induction js arbitrary: row n)
  case Nil
  then show ?case by simp
next
  case (Cons j js)
  have j: "j < length a" "j < 2147483648" using Cons.prems(1)[of j] by simp_all
  then have idx: "np_index a (int j) = Inr (a ! j)" by (simp add: np_index_nat)
  show ?case
  proof (cases "c \<in> set (a ! j)")
    case False
    have "Holdem_fill_row a c js (row, n) =
      Inr (take n row @ map int (filter (\<lambda>i. c \<in> set (a ! i)) js)
             @ drop (n + length (filter (\<lambda>i. c \<in> set (a ! i)) js)) row,
           n + length (filter (\<lambda>i. c \<in> set (a ! i)) js))"
      using Cons.prems False by (intro Cons.IH) auto
    then show ?thesis using False idx by simp
  next
    case True
    let ?m = "length (filter (\<lambda>i. c \<in> set (a ! i)) js)"
    have n: "n < length row" and le: "Suc n + ?m \<le> length (row[n := int j])"
      using Cons.prems(2) True by simp_all
    have "Holdem_fill_row a c js (row[n := int j], Suc n) =
      Inr (take (Suc n) (row[n := int j]) @ map int (filter (\<lambda>i. c \<in> set (a ! i)) js)
             @ drop (Suc n + ?m) (row[n := int j]), Suc n + ?m)"
      using Cons.prems(1) le by (intro Cons.IH) auto
    moreover have "take (Suc n) (row[n := int j]) = take n row @ [int j]"
      using n by (simp add: take_Suc_conv_app_nth)
    moreover have "drop (Suc n + ?m) (row[n := int j]) = drop (Suc n + ?m) row"
      by simp
    ultimately show ?thesis using True idx n j by (simp add: int32_nat)
  qed
qed

lemma filter_eq_distinct: "c \<in> set xs \<Longrightarrow> distinct xs \<Longrightarrow> filter (\<lambda>x. x = c) xs = [c]"
proof (induction xs)
  case Nil
  then show ?case by simp
next
  case (Cons x xs)
  show ?case
  proof (cases "x = c")
    case True
    then have "c \<notin> set xs" using Cons.prems by simp
    then have "filter (\<lambda>x. x = c) xs = []" by (auto simp: filter_empty_conv)
    then show ?thesis using True by simp
  next
    case False
    then show ?thesis using Cons by simp
  qed
qed

lemma concat_map_if: "concat (map (\<lambda>i. if P i then [f i] else []) xs) = map f (filter P xs)"
  by (induction xs) simp_all

lemma np_where_rows_distinct:
  assumes "\<And>i. i < length a \<Longrightarrow> distinct (a ! i)"
  shows "np_where_rows c a = map int (filter (\<lambda>i. c \<in> set (a ! i)) [0..<length a])"
proof -
  have row: "map (\<lambda>x. int i) (filter (\<lambda>x. x = c) (a ! i)) = (if c \<in> set (a ! i) then [int i] else [])"
    if "i < length a" for i
  proof -
    have d: "distinct (a ! i)" using assms that by simp
    show ?thesis
    proof (cases "c \<in> set (a ! i)")
      case True
      then have "filter (\<lambda>x. x = c) (a ! i) = [c]" using d by (rule filter_eq_distinct)
      then show ?thesis using True by simp
    next
      case False
      then show ?thesis by (auto simp: filter_empty_conv)
    qed
  qed
  have "np_where_rows c a =
      concat (map (\<lambda>i. if c \<in> set (a ! i) then [int i] else []) [0..<length a])"
    unfolding np_where_rows_def by (rule arg_cong[where f = concat]) (simp add: row)
  also have "\<dots> = map int (filter (\<lambda>i. c \<in> set (a ! i)) [0..<length a])"
    by (rule concat_map_if)
  finally show ?thesis .
qed


lemma no_sentinel_in_nat_rows: "\<not> list_ex (\<lambda>row. - 2 \<in> set row) (map (\<lambda>c. map int (f c)) cs)"
  by (auto simp: list_ex_iff)

lemma Holdem_membership_LUT:
  assumes vr: "variant_rules Holdem rules backend"
    and rs: "RANGE_SIZE rules \<le> 2147483648" and pos: "0 < N_CARDS_IN_DECK rules"
  shows "Holdem_get_card_in_what_range_idxs_LUT rules backend =
    Inr (map (\<lambda>c. map int (filter (\<lambda>i. int c \<in> set (get_idx_2_hole_card_LUT Holdem rules backend ! i))
                          [0..<RANGE_SIZE rules]))
           [0..<N_CARDS_IN_DECK rules])"
proof -
  let ?a = "Holdem_get_idx_2_hole_card_LUT backend"
  let ?N = "N_CARDS_IN_DECK rules"
  have a: "get_idx_2_hole_card_LUT Holdem rules backend = ?a"
    by (simp add: get_idx_2_hole_card_LUT_def)
  have len: "length ?a = RANGE_SIZE rules" using length_idx_2_hole_card[OF vr] a by simp
  have k: "N_HOLE_CARDS rules = 2" using vr by (simp add: variant_rules_def)
  have row: "(case Holdem_fill_row ?a (int c) [0..<RANGE_SIZE rules] (replicate (?N - 1) (- 2), 0) of
                Inl e \<Rightarrow> Inl e | Inr st \<Rightarrow> Inr (fst st))
      = Inr (map int (filter (\<lambda>i. int c \<in> set (?a ! i)) [0..<RANGE_SIZE rules]))"
    if "c \<in> set [0..<?N]" for c
  proof -
    have c: "c < ?N" using that by simp
    have cnt: "length (filter (\<lambda>i. int c \<in> set (?a ! i)) [0..<RANGE_SIZE rules]) = ?N - 1"
      using members_count[OF vr c] k a by simp
    have "Holdem_fill_row ?a (int c) [0..<RANGE_SIZE rules] (replicate (?N - 1) (- 2), 0) =
      Inr (take 0 (replicate (?N - 1) (- 2))
             @ map int (filter (\<lambda>i. int c \<in> set (?a ! i)) [0..<RANGE_SIZE rules])
             @ drop (0 + length (filter (\<lambda>i. int c \<in> set (?a ! i)) [0..<RANGE_SIZE rules]))
                 (replicate (?N - 1) (- 2)),
           0 + length (filter (\<lambda>i. int c \<in> set (?a ! i)) [0..<RANGE_SIZE rules]))"
      using rs len cnt by (intro Holdem_fill_row_result) auto
    then show ?thesis by (simp add: cnt)
  qed
  have tr: "traverse (\<lambda>c. case Holdem_fill_row ?a (int c) [0..<RANGE_SIZE rules]
                                 (replicate (?N - 1) (- 2), 0) of
                          Inl e \<Rightarrow> Inl e | Inr st \<Rightarrow> Inr (fst st)) [0..<?N]
      = Inr (map (\<lambda>c. map int (filter (\<lambda>i. int c \<in> set (?a ! i)) [0..<RANGE_SIZE rules])) [0..<?N])"
    by (rule traverse_total) (rule row)
  show ?thesis
    unfolding Holdem_get_card_in_what_range_idxs_LUT_def a tr
    using pos by (simp add: no_sentinel_in_nat_rows)
qed

lemma PLO_membership_LUT:
  assumes vr: "variant_rules PLO rules backend"
  shows "PLO_get_card_in_what_range_idxs_LUT rules =
    Inr (map (\<lambda>c. map int (filter (\<lambda>i. int c \<in> set (get_idx_2_hole_card_LUT PLO rules backend ! i))
                          [0..<RANGE_SIZE rules]))
           [0..<N_CARDS_IN_DECK rules])"
proof -
  let ?a = "PLO_get_idx_2_hole_card_LUT"
  have a: "get_idx_2_hole_card_LUT PLO rules backend = ?a"
    by (simp add: get_idx_2_hole_card_LUT_def)
  have len: "length ?a = RANGE_SIZE rules" using length_idx_2_hole_card[OF vr] a by simp
  have k: "N_HOLE_CARDS rules = 4" "N_CARDS_IN_DECK rules = 52" "RANGE_SIZE rules = 270725"
    using vr by (simp_all add: variant_rules_def choose_52_4)
  have dist: "distinct (?a ! i)" if "i < length ?a" for i
  proof -
    have "sorted_wrt (<) (?a ! i)" using idx_2_hole_card_row(1)[OF vr, of i] that a len by simp
    then show ?thesis by (simp add: strict_sorted_iff)
  qed
  have row: "np_assign_row 20825 (np_where_rows (int c) ?a)
      = Inr (map int (filter (\<lambda>i. int c \<in> set (?a ! i)) [0..<RANGE_SIZE rules]))"
    if "c \<in> set [0..<N_CARDS_IN_DECK rules]" for c
  proof -
    have c: "c < N_CARDS_IN_DECK rules" using that by simp
    have cnt: "length (filter (\<lambda>i. int c \<in> set (?a ! i)) [0..<RANGE_SIZE rules]) = 20825"
      using members_count[OF vr c] k a by (simp add: choose_51_3)
    have w: "np_where_rows (int c) ?a = map int (filter (\<lambda>i. int c \<in> set (?a ! i)) [0..<RANGE_SIZE rules])"
      using np_where_rows_distinct[of ?a "int c"] dist len by simp
    have "map int32 (map int (filter (\<lambda>i. int c \<in> set (?a ! i)) [0..<RANGE_SIZE rules]))
        = map int (filter (\<lambda>i. int c \<in> set (?a ! i)) [0..<RANGE_SIZE rules])"
      unfolding map_map by (rule map_cong[OF refl]) (simp add: k int32_nat)
    then show ?thesis by (simp add: np_assign_row_def w cnt)
  qed
  have tr: "traverse (\<lambda>c. np_assign_row 20825 (np_where_rows (int c) ?a))
               [0..<N_CARDS_IN_DECK rules]
      = Inr (map (\<lambda>c. map int (filter (\<lambda>i. int c \<in> set (?a ! i)) [0..<RANGE_SIZE rules]))
               [0..<N_CARDS_IN_DECK rules])"
    by (rule traverse_total) (rule row)
  show ?thesis
    unfolding PLO_get_card_in_what_range_idxs_LUT_def a tr
    by (simp add: no_sentinel_in_nat_rows)
qed

lemma Leduc_membership_LUT:
  assumes vr: "variant_rules Leduc rules backend"
  shows "Leduc_get_card_in_what_range_idxs_LUT rules =
    map (\<lambda>c. map int (filter (\<lambda>i. int c \<in> set (get_idx_2_hole_card_LUT Leduc rules backend ! i))
                          [0..<RANGE_SIZE rules]))
           [0..<N_CARDS_IN_DECK rules]"
proof -
  have rs: "RANGE_SIZE rules = N_CARDS_IN_DECK rules" using vr by (simp add: variant_rules_def)
  have "filter (\<lambda>i. int c \<in> set (get_idx_2_hole_card_LUT Leduc rules backend ! i))
          [0..<N_CARDS_IN_DECK rules] = [c]"
    if "c < N_CARDS_IN_DECK rules" for c
  proof -
    have "filter (\<lambda>i. int c \<in> set (get_idx_2_hole_card_LUT Leduc rules backend ! i))
          [0..<N_CARDS_IN_DECK rules] = filter (\<lambda>i. i = c) [0..<N_CARDS_IN_DECK rules]"
      by (rule filter_cong[OF refl])
        (auto simp: get_idx_2_hole_card_LUT_def Leduc_get_idx_2_hole_card_LUT_def np_arange_def)
    also have "\<dots> = [c]" using that by (intro filter_eq_distinct) simp_all
    finally show ?thesis .
  qed
  then show ?thesis
    unfolding Leduc_get_card_in_what_range_idxs_LUT_def rs np_arange_def map_map
    by (intro map_cong[OF refl]) simp
qed

lemma membership_LUT:
  assumes vr: "variant_rules v rules backend"
    and rs: "RANGE_SIZE rules \<le> 2147483648" and pos: "0 < N_CARDS_IN_DECK rules"
  shows "get_card_in_what_range_idxs_LUT v rules backend =
    Inr (map (\<lambda>c. map int (filter (\<lambda>i. int c \<in> set (get_idx_2_hole_card_LUT v rules backend ! i))
                          [0..<RANGE_SIZE rules]))
           [0..<N_CARDS_IN_DECK rules])"
proof (cases v)
  case Leduc
  then show ?thesis using Leduc_membership_LUT vr
    by (simp add: get_card_in_what_range_idxs_LUT_def)
next
  case Holdem
  then show ?thesis using Holdem_membership_LUT vr rs pos
    by (simp add: get_card_in_what_range_idxs_LUT_def)
next
  case PLO
  then show ?thesis using PLO_membership_LUT vr
    by (simp add: get_card_in_what_range_idxs_LUT_def)
qed


text \<open>C4: for every card \<open>c\<close> of the deck the membership table is built without an
  error, the row of \<open>c\<close> has exactly \<open>C(N_CARDS_IN_DECK - 1, N_HOLE_CARDS - 1)\<close> entries
  (20825 = C(51, 3) in the four-card game), it lists exactly the range indexes whose hole
  cards contain \<open>c\<close>, in ascending order, every entry is a range index whose hole cards
  contain \<open>c\<close>, and no cell of the table holds the fill value \<open>-2\<close>.\<close>

theorem card_membership_rows:
  assumes "variant_rules v rules backend" and "RANGE_SIZE rules \<le> 2147483648"
    and "c < N_CARDS_IN_DECK rules"
  shows "\<exists>lut. get_card_in_what_range_idxs_LUT v rules backend = Inr lut
    \<and> length lut = N_CARDS_IN_DECK rules
    \<and> length (lut ! c) = (N_CARDS_IN_DECK rules - 1) choose (N_HOLE_CARDS rules - 1)
    \<and> (v = PLO \<longrightarrow> length (lut ! c) = 20825 \<and> (20825::nat) = 51 choose 3)
    \<and> lut ! c = map int (filter (\<lambda>i. int c \<in> set (get_idx_2_hole_card_LUT v rules backend ! i))
                           [0..<RANGE_SIZE rules])
    \<and> (j < length (lut ! c) \<longrightarrow>
          0 \<le> lut ! c ! j \<and> lut ! c ! j < int (RANGE_SIZE rules)
          \<and> int c \<in> set (get_idx_2_hole_card_LUT v rules backend ! nat (lut ! c ! j)))
    \<and> \<not> list_ex (\<lambda>row. - 2 \<in> set row) lut"
proof -
  let ?row = "\<lambda>c. map int (filter (\<lambda>i. int c \<in> set (get_idx_2_hole_card_LUT v rules backend ! i))
                           [0..<RANGE_SIZE rules])"
  let ?lut = "map ?row [0..<N_CARDS_IN_DECK rules]"
  have lut: "get_card_in_what_range_idxs_LUT v rules backend = Inr ?lut"
    using assms by (intro membership_LUT) auto
  have row: "?lut ! c = ?row c" using assms(3) by simp
  have cnt: "length (?row c) = (N_CARDS_IN_DECK rules - 1) choose (N_HOLE_CARDS rules - 1)"
    using members_count[OF assms(1,3)] by simp
  have plo: "length (?row c) = 20825 \<and> (20825::nat) = 51 choose 3" if "v = PLO"
    using cnt that assms(1) by (simp add: variant_rules_def choose_51_3)
  have entry: "0 \<le> ?row c ! j \<and> ?row c ! j < int (RANGE_SIZE rules)
      \<and> int c \<in> set (get_idx_2_hole_card_LUT v rules backend ! nat (?row c ! j))"
    if "j < length (?row c)"
  proof -
    let ?f = "filter (\<lambda>i. int c \<in> set (get_idx_2_hole_card_LUT v rules backend ! i))
                [0..<RANGE_SIZE rules]"
    have j: "j < length ?f" using that by simp
    then have "?f ! j \<in> set ?f" by (rule nth_mem)
    then have "?f ! j < RANGE_SIZE rules"
      "int c \<in> set (get_idx_2_hole_card_LUT v rules backend ! (?f ! j))"
      by simp_all
    moreover have "?row c ! j = int (?f ! j)" using j by simp
    ultimately show ?thesis by simp
  qed
  have "length ?lut = N_CARDS_IN_DECK rules" by simp
  moreover have "\<not> list_ex (\<lambda>row. - 2 \<in> set row) ?lut" by (rule no_sentinel_in_nat_rows)
  ultimately show ?thesis using lut cnt plo entry unfolding row[symmetric] by blast
qed

theorem card_membership_rows_witness:
  "\<exists>lut. get_card_in_what_range_idxs_LUT PLO plo_rules standard_backend = Inr lut
    \<and> length lut = 52 \<and> length (lut ! 0) = 20825
    \<and> int 0 \<in> set (get_idx_2_hole_card_LUT PLO plo_rules standard_backend ! nat (lut ! 0 ! 0))
    \<and> \<not> list_ex (\<lambda>row. - 2 \<in> set row) lut"
proof -
  have vr: "variant_rules PLO plo_rules standard_backend"
    by (simp add: variant_rules_def plo_rules_def choose_52_4)
  have rs: "RANGE_SIZE plo_rules \<le> 2147483648" "0 < N_CARDS_IN_DECK plo_rules"
    by (simp_all add: plo_rules_def)
  have n: "N_CARDS_IN_DECK plo_rules = 52" by (simp add: plo_rules_def)
  show ?thesis
    using card_membership_rows[OF vr rs, of 0] unfolding n by auto
qed

subsection \<open>Rounds and boards\<close>

lemma fold_upd_map:
  "fold (\<lambda>r m. m(r \<mapsto> f r)) rs m0 x = (if x \<in> set rs then Some (f x) else m0 x)"
  by (induction rs arbitrary: m0) auto

lemma board_branches_entry:
  "get_n_board_branches_LUT rules r =
     (if r \<in> set (ALL_ROUNDS_LIST rules) \<and> r \<noteq> PREFLOP
      then Some ((N_CARDS_IN_DECK rules - get_n_cards_out_at_LUT rules (ROUND_BEFORE rules r)
                   - N_HOLE_CARDS rules)
                 choose get_n_cards_dealt_in_transition_to_LUT rules r)
      else if r = PREFLOP then Some 0 else None)"
proof -
  have nc: "nat (int a - int b - int c) = a - b - c" for a b c :: nat by simp
  show ?thesis
    unfolding get_n_board_branches_LUT_def Let_def get_range_size_def nc
    by (simp add: fold_upd_map)
qed

text \<open>C7: for every round \<open>r\<close> of the game after the preflop, the board-branch entry is
  \<open>C(N_CARDS_IN_DECK - cards out at the round before r - N_HOLE_CARDS, cards dealt in the
  transition to r)\<close>; the entry of the preflop is \<open>0\<close>.\<close>

theorem board_branches_count:
  assumes "r \<in> set (ALL_ROUNDS_LIST rules)" and "r \<noteq> PREFLOP"
  shows "get_n_board_branches_LUT rules r =
      Some ((N_CARDS_IN_DECK rules - get_n_cards_out_at_LUT rules (ROUND_BEFORE rules r)
               - N_HOLE_CARDS rules)
            choose get_n_cards_dealt_in_transition_to_LUT rules r)
    \<and> get_n_board_branches_LUT rules PREFLOP = Some 0"
  using assms by (simp add: board_branches_entry)

lemma choose_52_3: "(52::nat) choose 3 = 22100"
proof -
  have "3 * ((52::nat) choose 3) = 52 * (51 choose 2)"
    using times_binomial_minus1_eq[of 3 52] by simp
  then show ?thesis by (simp add: choose_two)
qed

lemma choose_50_3: "(50::nat) choose 3 = 19600"
proof -
  have "3 * ((50::nat) choose 3) = 50 * (49 choose 2)"
    using times_binomial_minus1_eq[of 3 50] by simp
  then show ?thesis by (simp add: choose_two)
qed

lemma choose_46_3: "(46::nat) choose 3 = 15180"
proof -
  have "3 * ((46::nat) choose 3) = 46 * (45 choose 2)"
    using times_binomial_minus1_eq[of 3 46] by simp
  then show ?thesis by (simp add: choose_two)
qed

lemma choose_47_4: "(47::nat) choose 4 = 178365"
proof -
  have "4 * ((47::nat) choose 4) = 47 * (46 choose 3)"
    using times_binomial_minus1_eq[of 4 47] by simp
  then show ?thesis by (simp add: choose_46_3)
qed

theorem board_branches_count_witness:
  "get_n_board_branches_LUT holdem_rules TURN = Some 47
   \<and> get_n_board_branches_LUT holdem_rules FLOP = Some 19600
   \<and> get_n_board_branches_LUT holdem_rules PREFLOP = Some 0"
  using board_branches_count[of TURN holdem_rules] board_branches_count[of FLOP holdem_rules]
  by (simp add: holdem_rules_def get_n_cards_out_at_LUT_def
      get_n_cards_dealt_in_transition_to_LUT_def choose_50_3)

lemma n_boards_entry:
  "get_n_boards_LUT rules r =
     (if r \<in> set (ALL_ROUNDS_LIST rules)
      then Some ((N_RANKS rules * N_SUITS rules) choose get_n_cards_dealt_in_transition_to_LUT rules r)
      else None)"
proof -
  have "map_of (map (\<lambda>r. (r, f r)) rs) x = (if x \<in> set rs then Some (f x) else None)"
    for f :: "round \<Rightarrow> nat" and rs x
    by (induction rs) auto
  then show ?thesis by (simp add: get_n_boards_LUT_def Let_def comb_def)
qed

text \<open>C3, as the code has it: for the preflop and the flop, where the cards dealt so far
  are the cards of one transition, the board-count entry is the closed-form count
  \<open>C(N_RANKS * N_SUITS, cards dealt through r)\<close> over the full deck; neither hole cards
  nor earlier board cards are removed from the deck.\<close>

theorem n_boards_full_deck:
  assumes "r \<in> set (ALL_ROUNDS_LIST rules)" and "r = PREFLOP \<or> r = FLOP"
  shows "get_n_boards_LUT rules r =
    Some ((N_RANKS rules * N_SUITS rules) choose get_n_cards_out_at_LUT rules r)"
  using assms
  by (auto simp: n_boards_entry get_n_cards_out_at_LUT_def get_n_cards_dealt_in_transition_to_LUT_def)

theorem n_boards_full_deck_witness:
  "get_n_boards_LUT holdem_rules FLOP = Some 22100 \<and> get_n_boards_LUT holdem_rules PREFLOP = Some 1"
  using n_boards_full_deck[of FLOP holdem_rules] n_boards_full_deck[of PREFLOP holdem_rules]
  by (simp add: holdem_rules_def get_n_cards_out_at_LUT_def choose_52_3)

lemma choose_4_mono: "m \<le> n \<Longrightarrow> m choose 4 \<le> n choose (4::nat)"
  by (rule binomial_right_mono)

lemma no_board_count_52: "(m::nat) choose 4 \<noteq> 52"
proof (cases "m \<le> 7")
  case True
  then have "m choose 4 \<le> 7 choose 4" by (rule choose_4_mono)
  moreover have "(7::nat) choose 4 = 35"
    using times_binomial_minus1_eq[of 4 7] times_binomial_minus1_eq[of 3 6] by (simp add: choose_two)
  ultimately show ?thesis by simp
next
  case False
  then have "8 choose 4 \<le> m choose 4" by (intro choose_4_mono) simp
  moreover have "(8::nat) choose 4 = 70"
    using times_binomial_minus1_eq[of 4 8] times_binomial_minus1_eq[of 3 7] by (simp add: choose_two)
  ultimately show ?thesis by simp
qed

text \<open>C3 as stated fails in the two-card game on the 52-card deck. On the flop the
  table holds \<open>C(52, 3) = 22100\<close>, not \<open>C(50, 3) = 19600\<close> over the deck that remains
  after the hole cards. On the turn it holds \<open>C(52, 1) = 52\<close>, which is not a count of
  four-card boards over a deck of any size.\<close>

theorem n_boards_counterexample:
  "get_n_boards_LUT holdem_rules FLOP = Some 22100
   \<and> spec_n_boards holdem_rules FLOP = 19600
   \<and> get_n_boards_LUT holdem_rules FLOP \<noteq> Some (spec_n_boards holdem_rules FLOP)
   \<and> get_n_boards_LUT holdem_rules TURN = Some 52
   \<and> spec_n_boards holdem_rules TURN = 178365
   \<and> get_n_cards_out_at_LUT holdem_rules TURN = 4
   \<and> (\<forall>m. get_n_boards_LUT holdem_rules TURN \<noteq> Some (m choose get_n_cards_out_at_LUT holdem_rules TURN))"
  by (simp add: n_boards_entry spec_n_boards_def holdem_rules_def get_n_cards_out_at_LUT_def
      get_n_cards_dealt_in_transition_to_LUT_def choose_52_3 choose_50_3 choose_47_4
      no_board_count_52[symmetric])

subsection \<open>Batch conversions\<close>

text \<open>C10: on a zero-dimensional argument and on an argument with no rows, both batch
  conversions return the empty array, whatever the holder's tables are.\<close>

theorem batch_conversions_empty:
  "get_1d_cards P H (Zero_dim x) = Inr [] \<and> get_1d_cards P H (Array []) = Inr []
   \<and> get_2d_cards P H (Zero_dim x) = Inr [] \<and> get_2d_cards P H (Array []) = Inr []"
  by (simp add: get_1d_cards_def get_2d_cards_def)

lemma zip_map_self: "zip xs (map f xs) = map (\<lambda>x. (x, f x)) xs"
  by (induction xs) simp_all

lemma get_2d_cards_sentinel:
  assumes "cs \<noteq> []" and "LUT_1DCARD_2_2DCARD H \<noteq> []"
    and "list_all (\<lambda>c. c = CARD_NOT_DEALT_TOKEN_1D P
                      \<or> 0 \<le> c \<and> c < int (length (LUT_1DCARD_2_2DCARD H))) cs"
  shows "get_2d_cards P H (Array cs) =
    Inr (map (\<lambda>c. if c = CARD_NOT_DEALT_TOKEN_1D P then CARD_NOT_DEALT_TOKEN_2D P
                  else LUT_1DCARD_2_2DCARD H ! nat c) cs)"
proof -
  let ?t = "CARD_NOT_DEALT_TOKEN_1D P"
  let ?L = "LUT_1DCARD_2_2DCARD H"
  have look: "np_index ?L x = Inr (?L ! nat x)"
    if "x \<in> set (map (\<lambda>c. if c = ?t then 0 else c) cs)" for x
  proof -
    have "0 \<le> x \<and> x < int (length ?L)" using that assms(2,3) by (auto simp: list_all_iff)
    then show ?thesis by (simp add: np_index_def np_norm_def)
  qed
  have tr: "traverse (np_index ?L) (map (\<lambda>c. if c = ?t then 0 else c) cs)
      = Inr (map (\<lambda>x. ?L ! nat x) (map (\<lambda>c. if c = ?t then 0 else c) cs))"
    by (rule traverse_total) (rule look)
  show ?thesis
    unfolding get_2d_cards_def Let_def ndarray.case tr
    using assms(1) by (simp add: zip_map_self o_def)
qed

lemma get_1d_cards_sentinel:
  assumes t: "CARD_NOT_DEALT_TOKEN_1D P < 0"
    and t2: "CARD_NOT_DEALT_TOKEN_2D P = (CARD_NOT_DEALT_TOKEN_1D P, CARD_NOT_DEALT_TOKEN_1D P)"
    and ne: "LUT_2DCARD_2_1DCARD H \<noteq> []" and pos: "0 < n_suits"
    and shape: "list_all (\<lambda>r. length r = n_suits) (LUT_2DCARD_2_1DCARD H)"
    and valid: "list_all (\<lambda>row. row = CARD_NOT_DEALT_TOKEN_2D P
                      \<or> 0 \<le> fst row \<and> fst row < int (length (LUT_2DCARD_2_1DCARD H))
                        \<and> 0 \<le> snd row \<and> snd row < int n_suits) rows"
  shows "get_1d_cards P H (Array rows) =
    Inr (map (\<lambda>row. if row = CARD_NOT_DEALT_TOKEN_2D P then CARD_NOT_DEALT_TOKEN_1D P
                    else LUT_2DCARD_2_1DCARD H ! nat (fst row) ! nat (snd row)) rows)"
proof (cases "rows = []")
  case True
  then show ?thesis by (simp add: get_1d_cards_def)
next
  case False
  let ?t = "CARD_NOT_DEALT_TOKEN_1D P"
  let ?L = "LUT_2DCARD_2_1DCARD H"
  let ?sub = "\<lambda>row. (if fst row = ?t then 0 else fst row, if snd row = ?t then 0 else snd row)"
  have look: "np_index2 ?L (fst x) (snd x) = Inr (?L ! nat (fst x) ! nat (snd x))"
    if "x \<in> set (map ?sub rows)" for x
  proof -
    from that have "x \<in> ?sub ` set rows" by (simp only: set_map)
    then obtain row where row: "row \<in> set rows" "x = ?sub row" by blast
    have "0 \<le> fst x \<and> fst x < int (length ?L) \<and> 0 \<le> snd x \<and> snd x < int n_suits"
      using row valid ne pos t2 by (auto simp: list_all_iff)
    then have b: "nat (fst x) < length ?L" "nat (snd x) < n_suits"
      "fst x = int (nat (fst x))" "snd x = int (nat (snd x))" by auto
    then have "nat (snd x) < length (?L ! nat (fst x))"
      using shape by (auto simp: list_all_iff)
    then show ?thesis using np_index2_nat[of "nat (fst x)" ?L "nat (snd x)"] b by simp
  qed
  have tr: "traverse (\<lambda>row. np_index2 ?L (fst row) (snd row)) (map ?sub rows)
      = Inr (map (\<lambda>x. ?L ! nat (fst x) ! nat (snd x)) (map ?sub rows))"
    by (rule traverse_total) (rule look)
  have out: "(if fst row = ?t then ?t else ?L ! nat (fst (?sub row)) ! nat (snd (?sub row)))
      = (if row = CARD_NOT_DEALT_TOKEN_2D P then ?t else ?L ! nat (fst row) ! nat (snd row))"
    if "row \<in> set rows" for row
    using that valid t t2 by (cases row) (auto simp: list_all_iff)
  have "get_1d_cards P H (Array rows) =
      Inr (map (\<lambda>row. if fst row = ?t then ?t else ?L ! nat (fst (?sub row)) ! nat (snd (?sub row))) rows)"
    unfolding get_1d_cards_def Let_def ndarray.case tr
    using False by (simp add: zip_map_self o_def)
  also have "\<dots> = Inr (map (\<lambda>row. if row = CARD_NOT_DEALT_TOKEN_2D P then ?t
                    else ?L ! nat (fst row) ! nat (snd row)) rows)"
    using out by (simp cong: map_cong)
  finally show ?thesis .
qed

lemma get_2d_cards_sentinel_all:
  assumes "LUT_1DCARD_2_2DCARD H \<noteq> []"
    and "list_all (\<lambda>c. c = CARD_NOT_DEALT_TOKEN_1D P
                      \<or> 0 \<le> c \<and> c < int (length (LUT_1DCARD_2_2DCARD H))) cs"
  shows "get_2d_cards P H (Array cs) =
    Inr (map (\<lambda>c. if c = CARD_NOT_DEALT_TOKEN_1D P then CARD_NOT_DEALT_TOKEN_2D P
                  else LUT_1DCARD_2_2DCARD H ! nat c) cs)"
proof (cases "cs = []")
  case True
  then show ?thesis by (simp add: get_2d_cards_def)
next
  case False
  then show ?thesis using assms by (rule get_2d_cards_sentinel)
qed

text \<open>C5: with a negative 1D sentinel and its pair as 2D sentinel, on non-empty tables,
  both batch conversions succeed on every sequence whose entries are the sentinel or
  cards of the tables: a sentinel entry gives the sentinel of the other representation,
  whatever the tables hold, and every other entry gives its table cell.\<close>

theorem batch_conversions_sentinel:
  assumes "CARD_NOT_DEALT_TOKEN_1D P < 0"
    and "CARD_NOT_DEALT_TOKEN_2D P = (CARD_NOT_DEALT_TOKEN_1D P, CARD_NOT_DEALT_TOKEN_1D P)"
    and "LUT_1DCARD_2_2DCARD H \<noteq> []"
    and "LUT_2DCARD_2_1DCARD H \<noteq> []" and "0 < n_suits"
    and "list_all (\<lambda>r. length r = n_suits) (LUT_2DCARD_2_1DCARD H)"
    and "list_all (\<lambda>c. c = CARD_NOT_DEALT_TOKEN_1D P
                      \<or> 0 \<le> c \<and> c < int (length (LUT_1DCARD_2_2DCARD H))) cs"
    and "list_all (\<lambda>row. row = CARD_NOT_DEALT_TOKEN_2D P
                      \<or> 0 \<le> fst row \<and> fst row < int (length (LUT_2DCARD_2_1DCARD H))
                        \<and> 0 \<le> snd row \<and> snd row < int n_suits) rows"
  shows "get_2d_cards P H (Array cs) =
      Inr (map (\<lambda>c. if c = CARD_NOT_DEALT_TOKEN_1D P then CARD_NOT_DEALT_TOKEN_2D P
                    else LUT_1DCARD_2_2DCARD H ! nat c) cs)
    \<and> get_1d_cards P H (Array rows) =
      Inr (map (\<lambda>row. if row = CARD_NOT_DEALT_TOKEN_2D P then CARD_NOT_DEALT_TOKEN_1D P
                      else LUT_2DCARD_2_1DCARD H ! nat (fst row) ! nat (snd row)) rows)"
  using get_2d_cards_sentinel_all[OF assms(3,7)] get_1d_cards_sentinel[OF assms(1,2,4,5,6,8)]
  by simp

theorem batch_conversions_sentinel_witness:
  "get_2d_cards sample_poker sample_holder (Array [3, - 1, 0]) = Inr [(1, 1), (- 1, - 1), (0, 0)]
   \<and> get_1d_cards sample_poker sample_holder (Array [(1, 0), (- 1, - 1), (0, 1)]) = Inr [2, - 1, 1]"
  using batch_conversions_sentinel[of sample_poker sample_holder 2 "[3, - 1, 0]"
      "[(1, 0), (- 1, - 1), (0, 1)]"]
  by (simp add: sample_poker_def sample_holder_def)

subsection \<open>The holders' range-index methods\<close>

lemma Leduc_holder_methods:
  assumes deck: "N_CARDS_IN_DECK rules = N_RANKS rules * N_SUITS rules"
    "N_CARDS_IN_DECK rules \<le> 128"
    and t: "CARD_NOT_DEALT_TOKEN_1D P < 0"
    and c: "c < N_CARDS_IN_DECK rules"
  shows "\<exists>H. LutHolderLeduc rules = Inr H
    \<and> get_1d_hole_cards_from_range_idx H (int c) = Inr [int c]
    \<and> Leduc_get_2d_hole_cards_from_range_idx H (int c)
        = Inr [(int (c div N_SUITS rules), int (c mod N_SUITS rules))]
    \<and> Leduc_get_range_idx_from_hole_cards P H
          (Array [(int (c div N_SUITS rules), int (c mod N_SUITS rules))]) = Inr (int c)"
proof -
  let ?lut = "map (\<lambda>c. (int (c div N_SUITS rules), int (c mod N_SUITS rules)))
                [0..<N_CARDS_IN_DECK rules]"
  let ?H = "\<lparr> LUT_1DCARD_2_2DCARD = ?lut,
              LUT_2DCARD_2_1DCARD = Leduc_get_2d_card_2_1d_card_LUT rules,
              LUT_IDX_2_HOLE_CARDS = Leduc_get_idx_2_hole_card_LUT rules,
              LUT_HOLE_CARDS_2_IDX = Leduc_get_hole_card_2_idx_LUT rules \<rparr>"
  let ?r = "c div N_SUITS rules" and ?s = "c mod N_SUITS rules"
  have H: "LutHolderLeduc rules = Inr ?H"
    by (simp add: LutHolderLeduc_def Leduc_1d_2d_LUT[OF deck])
  have i2h: "np_index (Leduc_get_idx_2_hole_card_LUT rules) (int c) = Inr [int c]"
    using c by (subst np_index_nat) (simp_all add: Leduc_get_idx_2_hole_card_LUT_def np_arange_def)
  have i2h0: "np_index2 (Leduc_get_idx_2_hole_card_LUT rules) (int c) (int 0) = Inr (int c)"
    using c by (subst np_index2_nat) (simp_all add: Leduc_get_idx_2_hole_card_LUT_def np_arange_def)
  have h2i: "np_index2 (Leduc_get_hole_card_2_idx_LUT rules) (int c) (int 0) = Inr (int c)"
    using c by (subst np_index2_nat) (simp_all add: Leduc_get_hole_card_2_idx_LUT_def np_arange_def)
  have l12: "np_index ?lut (int c) = Inr (int ?r, int ?s)"
    using c by (subst np_index_nat) simp_all
  have rs: "?r < N_RANKS rules" "?s < N_SUITS rules"
    using Leduc_2d_of_1d(2,3)[OF deck c] by simp_all
  have "?r * N_SUITS rules + ?s = c" by simp
  then have l21: "np_index2 (Leduc_get_2d_card_2_1d_card_LUT rules) (int ?r) (int ?s) = Inr (int c)"
    using Leduc_2d_1d_LUT[OF deck rs] by simp
  have ne: "int ?r \<noteq> CARD_NOT_DEALT_TOKEN_1D P" "int ?s \<noteq> CARD_NOT_DEALT_TOKEN_1D P"
    using t by linarith+
  have g1: "get_1d_cards P ?H (Array [(int ?r, int ?s)]) = Inr [int c]"
    using ne l21 by (simp add: get_1d_cards_def Let_def)
  have a: "get_1d_hole_cards_from_range_idx ?H (int c) = Inr [int c]"
    using i2h by (simp add: get_1d_hole_cards_from_range_idx_def)
  have b: "Leduc_get_2d_hole_cards_from_range_idx ?H (int c) = Inr [(int ?r, int ?s)]"
    using i2h0 l12 by (simp add: Leduc_get_2d_hole_cards_from_range_idx_def)
  have d: "Leduc_get_range_idx_from_hole_cards P ?H (Array [(int ?r, int ?s)]) = Inr (int c)"
    using h2i by (simp add: Leduc_get_range_idx_from_hole_cards_def g1)
  show ?thesis using H a b d by blast
qed

text \<open>C8: in the single-hole-card variant the indexing is the identity. \<open>RANGE_SIZE\<close> is
  \<open>N_CARDS_IN_DECK\<close>; for every card id \<open>c\<close> of the deck the tables map the hand \<open>[c]\<close> to
  the range index \<open>c\<close> and the range index \<open>c\<close> to the hand \<open>[c]\<close>; and on a deck of
  \<open>N_RANKS * N_SUITS\<close> cards that fits int8 the holder is built and its methods return the
  hand \<open>[c]\<close> for the range index \<open>c\<close> and the range index \<open>c\<close> for the 2D card of \<open>c\<close>.\<close>

theorem single_card_identity:
  assumes "variant_rules Leduc rules backend" and "c < N_CARDS_IN_DECK rules"
  shows "RANGE_SIZE rules = N_CARDS_IN_DECK rules
    \<and> lookup_hole_cards Leduc rules backend [int c] = Inr (int c)
    \<and> get_idx_2_hole_card_LUT Leduc rules backend ! c = [int c]
    \<and> (N_CARDS_IN_DECK rules = N_RANKS rules * N_SUITS rules \<and> N_CARDS_IN_DECK rules \<le> 128
         \<and> CARD_NOT_DEALT_TOKEN_1D P < 0 \<longrightarrow>
        (\<exists>H. LutHolderLeduc rules = Inr H
          \<and> get_1d_hole_cards_from_range_idx H (int c) = Inr [int c]
          \<and> Leduc_get_2d_hole_cards_from_range_idx H (int c)
              = Inr [(int (c div N_SUITS rules), int (c mod N_SUITS rules))]
          \<and> Leduc_get_range_idx_from_hole_cards P H
                (Array [(int (c div N_SUITS rules), int (c mod N_SUITS rules))]) = Inr (int c)))"
proof -
  have rs: "RANGE_SIZE rules = N_CARDS_IN_DECK rules"
    using assms(1) by (simp add: variant_rules_def)
  have row: "get_idx_2_hole_card_LUT Leduc rules backend ! c = [int c]"
    using assms(2)
    by (simp add: get_idx_2_hole_card_LUT_def Leduc_get_idx_2_hole_card_LUT_def np_arange_def)
  have "lookup_hole_cards Leduc rules backend (get_idx_2_hole_card_LUT Leduc rules backend ! c)
      = Inr (int c)"
    using assms rs by (intro lookup_row) simp_all
  then have look: "lookup_hole_cards Leduc rules backend [int c] = Inr (int c)"
    by (simp only: row)
  show ?thesis using rs row look Leduc_holder_methods[OF _ _ _ assms(2), of P] by blast
qed

theorem single_card_identity_witness:
  "RANGE_SIZE leduc_rules = 6
   \<and> lookup_hole_cards Leduc leduc_rules standard_backend [5] = Inr 5
   \<and> get_idx_2_hole_card_LUT Leduc leduc_rules standard_backend ! 5 = [5]
   \<and> (\<exists>H. LutHolderLeduc leduc_rules = Inr H
        \<and> get_1d_hole_cards_from_range_idx H 5 = Inr [5]
        \<and> Leduc_get_2d_hole_cards_from_range_idx H 5 = Inr [(2, 1)]
        \<and> Leduc_get_range_idx_from_hole_cards sample_poker H (Array [(2, 1)]) = Inr 5)"
proof -
  have vr: "variant_rules Leduc leduc_rules standard_backend"
    by (simp add: variant_rules_def leduc_rules_def)
  have c: "5 < N_CARDS_IN_DECK leduc_rules" by (simp add: leduc_rules_def)
  have v: "N_CARDS_IN_DECK leduc_rules = 6" "N_RANKS leduc_rules = 3" "N_SUITS leduc_rules = 2"
    "RANGE_SIZE leduc_rules = 6" "CARD_NOT_DEALT_TOKEN_1D sample_poker = - 1"
    by (simp_all add: leduc_rules_def sample_poker_def)
  show ?thesis
    using single_card_identity[OF vr c, of sample_poker] unfolding v by simp
qed

lemma np_index_error: "np_index xs i = Inl e \<Longrightarrow> e = IndexError"
  by (auto simp: np_index_def np_norm_def split: if_splits)

lemma np_index2_error: "np_index2 a i j = Inl e \<Longrightarrow> e = IndexError"
  by (auto simp: np_index2_def dest: np_index_error split: sum.splits)

lemma traverse_error:
  assumes "\<And>x e. f x = Inl e \<Longrightarrow> e = E"
  shows "traverse f xs = Inl e \<Longrightarrow> e = E"
  using assms by (induction xs) (auto split: sum.splits)

lemma traverse_Inr_elem:
  "traverse f xs = Inr ys \<Longrightarrow> x \<in> set xs \<Longrightarrow> f x = Inr (projr (f x))"
  by (induction xs arbitrary: ys) (auto split: sum.splits)

lemma traverse_perm:
  assumes p: "mset q' = mset q" and err: "\<And>x e. f x = Inl e \<Longrightarrow> e = E"
  shows "(traverse f q = Inr (map (\<lambda>x. projr (f x)) q)
            \<and> traverse f q' = Inr (map (\<lambda>x. projr (f x)) q'))
         \<or> (traverse f q = Inl E \<and> traverse f q' = Inl E)"
proof -
  have s: "set q' = set q" using p by (rule mset_eq_setD)
  have ok: "traverse f a = Inr (map (\<lambda>x. projr (f x)) a) \<and> traverse f b = Inr (map (\<lambda>x. projr (f x)) b)"
    if "traverse f a = Inr ys" "set b = set a" for a b ys
  proof -
    have el: "f x = Inr (projr (f x))" if "x \<in> set a" for x
      using traverse_Inr_elem[OF \<open>traverse f a = Inr ys\<close> that] .
    have "traverse f a = Inr (map (\<lambda>x. projr (f x)) a)" by (rule traverse_total) (rule el)
    moreover have "traverse f b = Inr (map (\<lambda>x. projr (f x)) b)"
      by (rule traverse_total) (rule el, simp only: \<open>set b = set a\<close>)
    ultimately show ?thesis by simp
  qed
  show ?thesis
  proof (cases "traverse f q")
    case (Inr ys)
    from ok[OF Inr s] show ?thesis by blast
  next
    case (Inl e)
    have "e = E" by (rule traverse_error[of f E q e]) (erule err, rule Inl)
    then have e: "traverse f q = Inl E" using Inl by simp
    show ?thesis
    proof (cases "traverse f q'")
      case (Inr ys')
      from ok[OF Inr s[symmetric]] show ?thesis by blast
    next
      case Inl': (Inl e')
      have "e' = E" by (rule traverse_error[of f E q' e']) (erule err, rule Inl')
      then have "traverse f q' = Inl E" using Inl' by simp
      then show ?thesis using e by blast
    qed
  qed
qed

lemma sort_mset_eq: "mset xs = mset ys \<Longrightarrow> sort xs = sort (ys :: int list)"
  by (rule properties_for_sort) simp_all

lemma PLO_range_idx_perm:
  assumes "mset q' = mset q"
  shows "PLO_get_range_idx_from_hole_cards H q' = PLO_get_range_idx_from_hole_cards H q"
proof -
  let ?f = "\<lambda>c. np_index2 (LUT_2DCARD_2_1DCARD H) (fst c) (snd c)"
  let ?g = "\<lambda>x. projr (?f x)"
  have "mset (map ?g q') = mset (map ?g q)"
    using assms by (metis mset_map)
  then have srt: "sort (map ?g q') = sort (map ?g q)"
    by (rule sort_mset_eq)
  have err: "e = IndexError" if "?f x = Inl e" for x e
    using that by (rule np_index2_error)
  have "(traverse ?f q = Inr (map ?g q) \<and> traverse ?f q' = Inr (map ?g q'))
      \<or> (traverse ?f q = Inl IndexError \<and> traverse ?f q' = Inl IndexError)"
    by (rule traverse_perm[OF assms]) (rule err)
  then consider (ok) "traverse ?f q = Inr (map ?g q)" "traverse ?f q' = Inr (map ?g q')"
    | (fail) "traverse ?f q = Inl IndexError" "traverse ?f q' = Inl IndexError"
    by blast
  then show ?thesis
  proof cases
    case ok
    show ?thesis unfolding PLO_get_range_idx_from_hole_cards_def ok by (simp only: sum.case srt)
  next
    case fail
    show ?thesis unfolding PLO_get_range_idx_from_hole_cards_def fail by simp
  qed
qed

lemma Holdem_range_idx_swap:
  "Holdem_get_range_idx_from_hole_cards H [a, b] = Holdem_get_range_idx_from_hole_cards H [b, a]"
proof -
  let ?f = "\<lambda>c. np_index2 (LUT_2DCARD_2_1DCARD H) (fst c) (snd c)"
  show ?thesis
  proof (cases "?f a")
    case a: (Inl e)
    then have e: "e = IndexError" by (rule np_index2_error)
    show ?thesis
    proof (cases "?f b")
      case (Inl e')
      then have "e' = IndexError" by (rule np_index2_error)
      then show ?thesis using a e Inl by (simp add: Holdem_get_range_idx_from_hole_cards_def)
    next
      case (Inr y)
      then show ?thesis using a e by (simp add: Holdem_get_range_idx_from_hole_cards_def)
    qed
  next
    case a: (Inr x)
    show ?thesis
    proof (cases "?f b")
      case (Inl e')
      then have "e' = IndexError" by (rule np_index2_error)
      then show ?thesis using a Inl by (simp add: Holdem_get_range_idx_from_hole_cards_def)
    next
      case (Inr y)
      then show ?thesis using a
        by (simp add: Holdem_get_range_idx_from_hole_cards_def min.commute max.commute)
    qed
  qed
qed

lemma PLO_range_idx_found:
  assumes vr: "variant_rules PLO rules backend"
    and tab: "LUT_HOLE_CARDS_2_IDX H = PLO_get_hole_card_2_idx_LUT rules"
    and conv: "traverse (\<lambda>c. np_index2 (LUT_2DCARD_2_1DCARD H) (fst c) (snd c)) q = Inr ids"
    and ids: "length ids = 4" "distinct ids" "list_all (\<lambda>c. 0 \<le> c \<and> c < 52) ids"
  shows "\<exists>n<RANGE_SIZE rules. PLO_get_range_idx_from_hole_cards H q = Inr (int n)
    \<and> PLO_get_idx_2_hole_card_LUT ! n = sort ids"
proof -
  have k: "N_HOLE_CARDS rules = 4" "N_CARDS_IN_DECK rules = 52"
    using vr by (simp_all add: variant_rules_def)
  have "sorted_wrt (<) (sort ids)" using ids(2) by (simp add: strict_sorted_iff)
  moreover have "length (sort ids) = N_HOLE_CARDS rules" using ids(1) k by simp
  moreover have "list_all (\<lambda>c. 0 \<le> c \<and> c < int (N_CARDS_IN_DECK rules)) (sort ids)"
    using ids(3) k by (simp add: list_all_iff)
  ultimately obtain n where n: "n < RANGE_SIZE rules"
    "lookup_hole_cards PLO rules backend (sort ids) = Inr (int n)"
    "get_idx_2_hole_card_LUT PLO rules backend ! n = sort ids"
    using hole_cards_found[OF vr, of "sort ids"] by blast
  define srt where "srt = sort ids"
  have "length srt = Suc (Suc (Suc (Suc 0)))" using ids(1) by (simp add: srt_def)
  then obtain l0 l1 l2 l3 where "srt = [l0, l1, l2, l3]"
    by (auto simp: length_Suc_conv)
  then have l: "sort ids = [l0, l1, l2, l3]" by (simp add: srt_def)
  have "PLO_get_range_idx_from_hole_cards H q = lookup_hole_cards PLO rules backend (sort ids)"
    by (simp add: PLO_get_range_idx_from_hole_cards_def conv l lookup_hole_cards_def tab)
  then show ?thesis using n by (auto simp: get_idx_2_hole_card_LUT_def)
qed


text \<open>C9: \<open>get_range_idx_from_hole_cards\<close> does not depend on the order of the hole
  cards. The four-card holder returns the same result, or raises the same error, on any
  two arguments that are permutations of each other, and the two-card holder on the two
  orders of a pair. Where the rows of the argument convert to four distinct card ids of
  the deck, the result of the four-card holder is the range index whose hole cards are
  these ids in ascending order.\<close>

theorem range_idx_permutation_invariant:
  assumes "mset q' = mset q"
  shows "PLO_get_range_idx_from_hole_cards H4 q' = PLO_get_range_idx_from_hole_cards H4 q
    \<and> Holdem_get_range_idx_from_hole_cards H2 [a, b]
        = Holdem_get_range_idx_from_hole_cards H2 [b, a]
    \<and> (variant_rules PLO rules backend
         \<and> LUT_HOLE_CARDS_2_IDX H4 = PLO_get_hole_card_2_idx_LUT rules
         \<and> traverse (\<lambda>c. np_index2 (LUT_2DCARD_2_1DCARD H4) (fst c) (snd c)) q = Inr ids
         \<and> length ids = 4 \<and> distinct ids \<and> list_all (\<lambda>c. 0 \<le> c \<and> c < 52) ids \<longrightarrow>
        (\<exists>n<RANGE_SIZE rules. PLO_get_range_idx_from_hole_cards H4 q' = Inr (int n)
           \<and> PLO_get_idx_2_hole_card_LUT ! n = sort ids))"
  using PLO_range_idx_perm[OF assms, of H4] Holdem_range_idx_swap[of H2 a b]
    PLO_range_idx_found[of rules backend H4 q ids]
  by auto

theorem range_idx_permutation_invariant_witness:
  "PLO_get_range_idx_from_hole_cards (LutHolderPLO plo_rules standard_backend)
       [(0, 3), (0, 1), (0, 0), (0, 2)]
     = PLO_get_range_idx_from_hole_cards (LutHolderPLO plo_rules standard_backend)
         [(0, 0), (0, 1), (0, 2), (0, 3)]
   \<and> Holdem_get_range_idx_from_hole_cards sample_holder [(0, 1), (1, 0)]
     = Holdem_get_range_idx_from_hole_cards sample_holder [(1, 0), (0, 1)]
   \<and> (\<exists>n<270725. PLO_get_range_idx_from_hole_cards (LutHolderPLO plo_rules standard_backend)
          [(0, 3), (0, 1), (0, 0), (0, 2)] = Inr (int n)
        \<and> PLO_get_idx_2_hole_card_LUT ! n = [0, 1, 2, 3])"
proof -
  have vr: "variant_rules PLO plo_rules standard_backend"
    by (simp add: variant_rules_def plo_rules_def choose_52_4)
  have tab: "LUT_HOLE_CARDS_2_IDX (LutHolderPLO plo_rules standard_backend)
      = PLO_get_hole_card_2_idx_LUT plo_rules"
    by (simp add: LutHolderPLO_def)
  have conv: "traverse (\<lambda>c. np_index2 (LUT_2DCARD_2_1DCARD (LutHolderPLO plo_rules standard_backend))
                            (fst c) (snd c)) [(0, 0), (0, 1), (0, 2), (0, 3)] = Inr [0, 1, 2, 3]"
    by (simp add: LutHolderPLO_def cpp_get_2d_card_2_1d_card_LUT_def plo_rules_def
        standard_backend_def np_index2_def np_index_def np_norm_def int8_def)
  have rs: "RANGE_SIZE plo_rules = 270725" by (simp add: plo_rules_def)
  have p: "mset [(0, 3), (0, 1), (0, 0), (0, 2)] = mset [(0::int, 0::int), (0, 1), (0, 2), (0, 3)]"
    by simp
  have srt: "sort [0, 1, 2, 3 :: int] = [0, 1, 2, 3]" by simp
  have prem: "variant_rules PLO plo_rules standard_backend
      \<and> LUT_HOLE_CARDS_2_IDX (LutHolderPLO plo_rules standard_backend)
          = PLO_get_hole_card_2_idx_LUT plo_rules
      \<and> traverse (\<lambda>c. np_index2 (LUT_2DCARD_2_1DCARD (LutHolderPLO plo_rules standard_backend))
                            (fst c) (snd c)) [(0, 0), (0, 1), (0, 2), (0, 3)] = Inr [0, 1, 2, 3]
      \<and> length [0, 1, 2, 3 :: int] = 4 \<and> distinct [0, 1, 2, 3 :: int]
      \<and> list_all (\<lambda>c. 0 \<le> c \<and> c < 52) [0, 1, 2, 3 :: int]"
    using vr tab conv by simp
  show ?thesis
    using range_idx_permutation_invariant[OF p,
        of "LutHolderPLO plo_rules standard_backend" sample_holder "(0, 1)" "(1, 0)"
           plo_rules standard_backend "[0, 1, 2, 3]", unfolded rs srt] prem
    by blast
qed

end
